theory Spec2Isabelle
  imports Main "HOL-Library.Char_ord" "HOL-Library.List_Lexorder" "HOL-Library.Product_Lexorder"
begin

section \<open>The Number values behind the mock generator\<close>

text \<open>
  \<^verbatim>\<open>Math.random()\<close> returns an IEEE-754 binary64 Number that is at least 0 and below 1.
  Such a value is \<open>m * 2^e\<close> for a significand \<open>m < 2^53\<close> and an exponent
  \<open>e \<ge> -1074\<close>; \<open>Float64 m e\<close> stands for it. Only non-negative finite values occur
  in the generator, so neither a sign nor NaN or Infinity is represented.
\<close>

datatype float64 = Float64 (significand: nat) (exponent: int)

text \<open>The values \<^verbatim>\<open>Math.random()\<close> may return: binary64 values in the interval [0, 1).\<close>

definition is_random_result :: "float64 \<Rightarrow> bool" where
  "is_random_result x \<longleftrightarrow>
     significand x < 2 ^ 53 \<and> - 1074 \<le> exponent x \<and>
     (if exponent x < 0 then significand x < 2 ^ nat (- exponent x) else significand x = 0)"

text \<open>Number of binary digits of a natural number.\<close>

fun bit_length :: "nat \<Rightarrow> nat" where
  "bit_length n = (if n = 0 then 0 else Suc (bit_length (n div 2)))"

declare bit_length.simps [simp del]

text \<open>\<open>p / 2^s\<close> rounded to the nearest integer, ties to the even one (the IEEE default).\<close>

definition round_half_even :: "nat \<Rightarrow> nat \<Rightarrow> nat" where
  "round_half_even p s =
     (let q = p div 2 ^ s; r = p mod 2 ^ s
      in if 2 ^ s < 2 * r \<or> (2 * r = 2 ^ s \<and> odd q) then q + 1 else q)"

text \<open>
  The binary64 product \<^verbatim>\<open>x * n\<close> of a Number \<open>x\<close> and an integer literal \<open>n\<close>: the exact
  product has the significand \<open>m * n\<close>, which is rounded to 53 binary digits when it is
  longer. The operands of the generator are below 1 and the literals are 11 and 50, so the
  product never overflows.
\<close>

definition multiply :: "float64 \<Rightarrow> nat \<Rightarrow> float64" where
  "multiply x n =
     (let p = significand x * n; s = bit_length p - 53
      in Float64 (round_half_even p s) (exponent x + int s))"

text \<open>\<^verbatim>\<open>Math.floor\<close> on a non-negative Number.\<close>

definition Math_floor :: "float64 \<Rightarrow> int" where
  "Math_floor x =
     (if 0 \<le> exponent x then int (significand x * 2 ^ nat (exponent x))
      else int (significand x div 2 ^ nat (- exponent x)))"

text \<open>
  \<^verbatim>\<open>Math.random\<close> is stateful: the runtime's generator is a sequence of Numbers, and each
  call takes the next one. The state is the number of calls made so far.
\<close>

type_synonym random_source = "nat \<Rightarrow> float64"

definition Math_random :: "random_source \<Rightarrow> nat \<Rightarrow> float64 \<times> nat" where
  "Math_random rnd k = (rnd k, Suc k)"

section \<open>ControlCenterPage.tsx: the inventory grid\<close>

text \<open>
  \<^verbatim>\<open>addDays\<close> and \<^verbatim>\<open>format\<close> come from the date-fns package, which is not part of the
  repository: they are parameters of the model, over any representation \<open>'d\<close> of
  \<^verbatim>\<open>Date\<close>.
\<close>

record 'd date_fns =
  addDays :: "'d \<Rightarrow> nat \<Rightarrow> 'd"
  format :: "'d \<Rightarrow> string \<Rightarrow> string"

record RoomType =
  rt_id :: string
  rt_name :: string

record DailyStats =
  date :: string
  inventory :: int
  rate :: int
  isSoldOut :: bool

definition ROOM_TYPES :: "RoomType list" where
  "ROOM_TYPES =
     [\<lparr>rt_id = ''deluxe'', rt_name = ''Deluxe King''\<rparr>,
      \<lparr>rt_id = ''standard'', rt_name = ''Standard Twin''\<rparr>,
      \<lparr>rt_id = ''suite'', rt_name = ''Executive Suite''\<rparr>,
      \<lparr>rt_id = ''family'', rt_name = ''Family Room''\<rparr>]"

text \<open>
  Reading a property of \<^verbatim>\<open>undefined\<close>, or assigning one, throws a TypeError; the model
  returns it as a value.
\<close>

datatype js_error = TypeError

type_synonym grid = "string \<rightharpoonup> (string \<rightharpoonup> DailyStats)"

text \<open>
  The \<^verbatim>\<open>for\<close> loop of \<^verbatim>\<open>generateMockData\<close>, for the room \<open>rid\<close>, from the index \<open>i\<close>. The
  inventory draws from \<^verbatim>\<open>Math.random\<close> first, the rate second.
\<close>

function days_loop ::
  "'d date_fns \<Rightarrow> random_source \<Rightarrow> 'd \<Rightarrow> nat \<Rightarrow> string \<Rightarrow> grid \<Rightarrow> nat \<Rightarrow> nat
   \<Rightarrow> js_error + grid \<times> nat" where
  "days_loop lib rnd startDate days rid data k i =
     (if i < days then
        let dt = addDays lib startDate i;
            dateStr = format lib dt ''yyyy-MM-dd'';
            (r1, k1) = Math_random rnd k;
            inventory = Math_floor (multiply r1 11);
            (r2, k2) = Math_random rnd k1;
            cell = \<lparr>date = dateStr, inventory = inventory,
                    rate = 100 + Math_floor (multiply r2 50),
                    isSoldOut = (inventory = 0)\<rparr>
        in case data rid of
             None \<Rightarrow> Inl TypeError
           | Some row \<Rightarrow>
               days_loop lib rnd startDate days rid
                 (data(rid \<mapsto> row(dateStr \<mapsto> cell))) k2 (Suc i)
      else Inr (data, k))"
  by pat_completeness auto
termination
  by (relation "measure (\<lambda>(lib, rnd, startDate, days, rid, data, k, i). days - i)")
    (auto simp: Math_random_def)

declare days_loop.simps [simp del]

text \<open>\<^verbatim>\<open>ROOM_TYPES.forEach\<close>: each room gets a fresh row, then the loop over the days.\<close>

fun rooms_forEach ::
  "'d date_fns \<Rightarrow> random_source \<Rightarrow> 'd \<Rightarrow> nat \<Rightarrow> RoomType list \<Rightarrow> grid \<Rightarrow> nat
   \<Rightarrow> js_error + grid \<times> nat" where
  "rooms_forEach lib rnd startDate days [] data k = Inr (data, k)"
| "rooms_forEach lib rnd startDate days (room # rooms) data k =
     (case days_loop lib rnd startDate days (rt_id room)
             (data(rt_id room \<mapsto> Map.empty)) k 0 of
        Inl e \<Rightarrow> Inl e
      | Inr (data', k') \<Rightarrow> rooms_forEach lib rnd startDate days rooms data' k')"

definition generateMockData ::
  "'d date_fns \<Rightarrow> random_source \<Rightarrow> nat \<Rightarrow> 'd \<Rightarrow> nat \<Rightarrow> js_error + grid \<times> nat" where
  "generateMockData lib rnd k startDate days =
     rooms_forEach lib rnd startDate days ROOM_TYPES Map.empty k"

text \<open>
  \<^verbatim>\<open>Array.prototype.map\<close> with a callback that may throw: the first exception ends the
  traversal.
\<close>

fun map_throwing :: "('a \<Rightarrow> js_error + 'b) \<Rightarrow> 'a list \<Rightarrow> js_error + 'b list" where
  "map_throwing f [] = Inr []"
| "map_throwing f (x # xs) =
     (case f x of
        Inl e \<Rightarrow> Inl e
      | Inr y \<Rightarrow> (case map_throwing f xs of Inl e \<Rightarrow> Inl e | Inr ys \<Rightarrow> Inr (y # ys)))"

definition getCellColor :: "int \<Rightarrow> bool \<Rightarrow> string" where
  "getCellColor stock soldOut =
     (if soldOut \<or> stock = 0 then ''bg-red-50 text-red-900''
      else if stock \<le> 5 then ''bg-amber-50 text-amber-900''
      else ''bg-emerald-50 text-emerald-900'')"

text \<open>What a data cell shows: \<^verbatim>\<open>cellData.isSoldOut ? "SOLD" : cellData.inventory\<close>.\<close>

datatype cell_label = SOLD | Units int

record cell_view =
  cell_key :: string
  colorClass :: string
  struck_through :: bool
  label :: cell_label
  shown_rate :: int

text \<open>
  One data cell of a row. \<^verbatim>\<open>gridData[room.id][dateStr]\<close> throws when the row is missing,
  and \<^verbatim>\<open>cellData.inventory\<close> throws when the cell is.
\<close>

definition data_cell :: "'d date_fns \<Rightarrow> grid \<Rightarrow> RoomType \<Rightarrow> 'd \<Rightarrow> js_error + cell_view" where
  "data_cell lib gridData room dt =
     (let dateStr = format lib dt ''yyyy-MM-dd''
      in case gridData (rt_id room) of
           None \<Rightarrow> Inl TypeError
         | Some row \<Rightarrow>
             (case row dateStr of
                None \<Rightarrow> Inl TypeError
              | Some cellData \<Rightarrow>
                  Inr \<lparr>cell_key = dateStr,
                       colorClass = getCellColor (inventory cellData) (isSoldOut cellData),
                       struck_through = isSoldOut cellData,
                       label = (if isSoldOut cellData then SOLD else Units (inventory cellData)),
                       shown_rate = rate cellData\<rparr>))"

record grid_view =
  header :: "(string \<times> string) list"
  rows :: "(string \<times> cell_view list) list"

text \<open>
  The component \<^verbatim>\<open>InventoryGrid\<close>. \<open>today\<close> is the value of \<^verbatim>\<open>startOfToday()\<close>. Every
  render gets a new \<^verbatim>\<open>Date\<close> object from it, so both \<^verbatim>\<open>useMemo\<close> bodies run on every
  render, with the same \<open>today\<close>.
\<close>

definition InventoryGrid ::
  "'d date_fns \<Rightarrow> random_source \<Rightarrow> nat \<Rightarrow> 'd \<Rightarrow> js_error + grid_view \<times> nat" where
  "InventoryGrid lib rnd k today =
     (let days = 30;
          dateHeaders = map (addDays lib today) [0..<days]
      in case generateMockData lib rnd k today days of
           Inl e \<Rightarrow> Inl e
         | Inr (gridData, k') \<Rightarrow>
             (case map_throwing
                     (\<lambda>room. case map_throwing (data_cell lib gridData room) dateHeaders of
                               Inl e \<Rightarrow> Inl e
                             | Inr cells \<Rightarrow> Inr (rt_name room, cells))
                     ROOM_TYPES of
                Inl e \<Rightarrow> Inl e
              | Inr rs \<Rightarrow>
                  Inr (\<lparr>header = map (\<lambda>dt. (format lib dt ''EEE'', format lib dt ''d MMM''))
                                     dateHeaders,
                        rows = rs\<rparr>, k')))"

section \<open>ChannelHealthWidget.tsx: the channel health widget\<close>

datatype channel_health = online | error

record ChannelStatus =
  ch_id :: string
  ch_name :: string
  status :: channel_health
  lastSync :: string

definition CHANNELS :: "ChannelStatus list" where
  "CHANNELS =
     [\<lparr>ch_id = ''booking'', ch_name = ''Booking.com'', status = online,
       lastSync = ''2 mins ago''\<rparr>,
      \<lparr>ch_id = ''airbnb'', ch_name = ''Airbnb'', status = online, lastSync = ''5 mins ago''\<rparr>,
      \<lparr>ch_id = ''expedia'', ch_name = ''Expedia'', status = error,
       lastSync = ''Failed 1h ago''\<rparr>,
      \<lparr>ch_id = ''agoda'', ch_name = ''Agoda'', status = online, lastSync = ''10 mins ago''\<rparr>]"

datatype status_icon = CheckCircle2 | AlertCircle

text \<open>The lower part of a card: the time of the last sync, or the failure with its button.\<close>

datatype card_body = Synced string | Auth_Failed_Reconnect

record channel_card =
  card_key :: string
  card_class :: string
  card_title :: string
  card_icon :: status_icon
  body :: card_body

definition render_channel :: "ChannelStatus \<Rightarrow> channel_card" where
  "render_channel channel =
     \<lparr>card_key = ch_id channel,
      card_class = (if status channel = error then ''bg-red-50 border-red-100''
                    else ''bg-white border-slate-200''),
      card_title = ch_name channel,
      card_icon = (if status channel = online then CheckCircle2 else AlertCircle),
      body = (if status channel = online then Synced (lastSync channel)
              else Auth_Failed_Reconnect)\<rparr>"

text \<open>The component takes no props and holds no state: its output is a constant.\<close>

definition ChannelHealthWidget :: "channel_card list" where
  "ChannelHealthWidget = map render_channel CHANNELS"

section \<open>The bulk update drawer and the page\<close>

record 'd DateRange =
  range_from :: "'d option"
  range_to :: "'d option"

text \<open>The four \<^verbatim>\<open>useState\<close> cells of \<^verbatim>\<open>BulkUpdateDrawer\<close>.\<close>

record 'd form_state =
  form_date :: "'d DateRange option"
  roomType :: string
  form_rate :: string
  isOpen :: bool

text \<open>The initial form; \<open>now\<close> is the value of \<^verbatim>\<open>new Date()\<close> at the first render.\<close>

definition initial_form :: "'d \<Rightarrow> 'd form_state" where
  "initial_form now =
     \<lparr>form_date = Some \<lparr>range_from = Some now, range_to = Some now\<rparr>,
      roomType = '''', form_rate = '''', isOpen = True\<rparr>"

text \<open>
  What a handler of the drawer does to the world outside the component: a line on the
  console, or a call of the \<^verbatim>\<open>onOpenChange\<close> prop.
\<close>

datatype 'd effect = console_log string "'d form_state" | onOpenChange bool

definition handleUpdate :: "'d form_state \<Rightarrow> 'd effect list" where
  "handleUpdate form = [console_log ''Updating'' form, onOpenChange False]"

text \<open>
  \<^verbatim>\<open>ControlCenterPage\<close> holds \<^verbatim>\<open>isDrawerOpen\<close> and passes \<^verbatim>\<open>setIsDrawerOpen\<close> to the
  drawer as \<^verbatim>\<open>onOpenChange\<close>. The state of the page is that flag, the form of the drawer,
  and the console.
\<close>

record 'd page_state =
  isDrawerOpen :: bool
  drawer_form :: "'d form_state"
  console :: "(string \<times> 'd form_state) list"

definition initial_page :: "'d \<Rightarrow> 'd page_state" where
  "initial_page now = \<lparr>isDrawerOpen = False, drawer_form = initial_form now, console = []\<rparr>"

fun perform :: "'d effect \<Rightarrow> 'd page_state \<Rightarrow> 'd page_state" where
  "perform (console_log msg form) s = s\<lparr>console := console s @ [(msg, form)]\<rparr>"
| "perform (onOpenChange b) s = s\<lparr>isDrawerOpen := b\<rparr>"

text \<open>
  The events of the page. \<^verbatim>\<open>Refresh All\<close> and \<^verbatim>\<open>Reconnect\<close> are buttons without an
  \<^verbatim>\<open>onClick\<close> handler.
\<close>

datatype 'd event =
    Bulk_Update_click
  | Apply_Changes_click
  | Sheet_onOpenChange bool
  | Calendar_onSelect "'d DateRange option"
  | Select_onValueChange string
  | Input_onChange string
  | Switch_onCheckedChange bool
  | Refresh_All_click
  | Reconnect_click string

fun handle :: "'d event \<Rightarrow> 'd page_state \<Rightarrow> 'd page_state" where
  "handle Bulk_Update_click s = s\<lparr>isDrawerOpen := True\<rparr>"
| "handle Apply_Changes_click s = fold perform (handleUpdate (drawer_form s)) s"
| "handle (Sheet_onOpenChange b) s = s\<lparr>isDrawerOpen := b\<rparr>"
| "handle (Calendar_onSelect r) s = s\<lparr>drawer_form := (drawer_form s)\<lparr>form_date := r\<rparr>\<rparr>"
| "handle (Select_onValueChange v) s = s\<lparr>drawer_form := (drawer_form s)\<lparr>roomType := v\<rparr>\<rparr>"
| "handle (Input_onChange v) s = s\<lparr>drawer_form := (drawer_form s)\<lparr>form_rate := v\<rparr>\<rparr>"
| "handle (Switch_onCheckedChange b) s = s\<lparr>drawer_form := (drawer_form s)\<lparr>isOpen := b\<rparr>\<rparr>"
| "handle Refresh_All_click s = s"
| "handle (Reconnect_click channel) s = s"

section \<open>The synchronization core the specification describes\<close>

text \<open>
  The README names a backend (webhook ingestion, iCal sync, rate parity); none of it is among
  the sources of the repository, which hold the dashboard alone. The definitions of this
  section are written from the specification, one for each rule it states. Dates and
  instants are numbers: a date is a day number, an instant a tick of the clock.
\<close>

subsection \<open>Inventory Ledger\<close>

text \<open>
  Modelled from the spec: the source enum of \<open>last_modified_by\<close> (section 3, InventoryDay);
  the Ledger is not among the sources.
\<close>

datatype modified_by = by_manual | by_channel string | by_reconciliation

text \<open>
  Modelled from the spec: InventoryDay (section 3), the per-room-type, per-date state the
  Ledger holds, with its version; the Ledger is not among the sources.
\<close>

record InventoryDay =
  available_units :: nat
  day_rate :: nat
  is_open :: bool
  version :: nat
  last_modified_by :: modified_by

text \<open>
  Modelled from the spec: the key of an InventoryDay, \<open>(room_type_id, date)\<close> (section 3),
  and the store of the Ledger, which is not among the sources.
\<close>

type_synonym ledger_key = "string \<times> nat"

type_synonym inventory = "ledger_key \<rightharpoonup> InventoryDay"

text \<open>
  Modelled from the spec: a Ledger mutation (section 4.1), which is not among the sources:
  the key it writes and the values it stores there.
\<close>

record mutation =
  mut_key :: ledger_key
  mut_units :: nat
  mut_rate :: nat
  mut_open :: bool
  mut_by :: modified_by

text \<open>
  Modelled from the spec: the error taxonomy (section 7); the backend that raises these is
  not among the sources.
\<close>

datatype core_error =
    ValidationError
  | VersionConflict
  | CapacityConflict
  | ChannelUnavailable
  | ChannelRejected
  | StorageFailure

text \<open>
  Modelled from the spec: the version the Ledger stores for a key (section 3), none when the
  key was never written; the Ledger is not among the sources.
\<close>

definition stored_version :: "inventory \<Rightarrow> ledger_key \<Rightarrow> nat option" where
  "stored_version store key = map_option version (store key)"

text \<open>
  Modelled from the spec: \<open>apply(mutation, expected_version|none) -> new_version | fails
  with VersionConflict\<close> (section 4.1), which is not among the sources. Every write
  supplies the version it read, or none for the first write; on a mismatch the write fails
  and the caller must read again. A write that succeeds stores the next version.
\<close>

definition ledger_apply ::
  "inventory \<Rightarrow> mutation \<Rightarrow> nat option \<Rightarrow> core_error + nat \<times> inventory" where
  "ledger_apply store m expected_version =
     (if expected_version \<noteq> stored_version store (mut_key m) then Inl VersionConflict
      else
        let new_version = (case expected_version of None \<Rightarrow> 1 | Some v \<Rightarrow> v + 1)
        in Inr (new_version,
                store(mut_key m \<mapsto>
                  \<lparr>available_units = mut_units m, day_rate = mut_rate m,
                   is_open = mut_open m, version = new_version,
                   last_modified_by = mut_by m\<rparr>)))"

text \<open>
  Modelled from the spec: a sequence of \<open>apply\<close> calls on the Ledger (section 8, first
  property); the Ledger is not among the sources. The function lists the versions the calls
  stored for the key \<open>key\<close>, in the order of the calls. A call that fails leaves the Ledger
  as it is.
\<close>

fun version_history :: "ledger_key \<Rightarrow> inventory \<Rightarrow> (mutation \<times> nat option) list \<Rightarrow> nat list" where
  "version_history key store [] = []"
| "version_history key store ((m, expected_version) # calls) =
     (case ledger_apply store m expected_version of
        Inl e \<Rightarrow> version_history key store calls
      | Inr (v, store') \<Rightarrow>
          (if mut_key m = key then [v] else []) @ version_history key store' calls)"

subsection \<open>Bookings and the Reconciliation Engine\<close>

text \<open>
  Modelled from the spec: the status of a Booking (section 3), with the CONFLICT state of
  section 4.3; the engine is not among the sources.
\<close>

datatype booking_status = confirmed | cancelled | CONFLICT

text \<open>
  Modelled from the spec: Booking (section 3); the backend is not among the sources. The
  date range is \<open>[check_in, check_out)\<close>. The number of units is the one the scenarios of
  section 8 give each Booking.
\<close>

record Booking =
  booking_id :: nat
  room_type_id :: string
  check_in :: nat
  check_out :: nat
  source_channel :: string
  external_reservation_id :: string
  units :: nat
  booking_status :: booking_status
  created_at :: nat

text \<open>
  Modelled from the spec: the state the Ledger owns, InventoryDay and Booking records
  (section 3, ownership); the Ledger is not among the sources.
\<close>

record ledger =
  inventory_days :: inventory
  bookings :: "Booking list"

text \<open>
  Modelled from the spec: the lookup of a Booking by \<open>(channel_id,
  external_reservation_id)\<close>, the key of the dedupe rule (section 4.2); the backend is not
  among the sources.
\<close>

fun find_booking :: "Booking list \<Rightarrow> string \<Rightarrow> string \<Rightarrow> Booking option" where
  "find_booking [] ch ext = None"
| "find_booking (b # bs) ch ext =
     (if source_channel b = ch \<and> external_reservation_id b = ext then Some b
      else find_booking bs ch ext)"

text \<open>
  Modelled from the spec: the dates of the range \<open>[check_in, check_out)\<close> of a Booking, and
  the overlap of two Bookings on a room type and date (section 3); the backend is not among
  the sources.
\<close>

definition nights :: "Booking \<Rightarrow> nat list" where
  "nights b = [check_in b..<check_out b]"

definition overlaps :: "Booking \<Rightarrow> Booking \<Rightarrow> bool" where
  "overlaps a b \<longleftrightarrow>
     room_type_id a = room_type_id b \<and> check_in a < check_out b \<and> check_in b < check_out a"

text \<open>
  Modelled from the spec: the units of the confirmed Bookings of a room type on a date, the
  sum the capacity invariant bounds (section 3, Booking); the backend is not among the
  sources.
\<close>

definition booked_units :: "Booking list \<Rightarrow> string \<Rightarrow> nat \<Rightarrow> nat" where
  "booked_units bs room d =
     sum_list (map units
       (filter (\<lambda>b. booking_status b = confirmed \<and> room_type_id b = room \<and>
                     check_in b \<le> d \<and> d < check_out b) bs))"

text \<open>
  Modelled from the spec: the Ledger mutations of one applied event (section 4.3), which
  is not among the sources: the available units of every date of the stay are changed by
  \<open>f\<close>, each through \<open>apply\<close> with the version just read. A date the Ledger holds no
  InventoryDay for has no count to change. The result lists the new versions.
\<close>

fun mutate_nights ::
  "(nat \<Rightarrow> nat) \<Rightarrow> string \<Rightarrow> nat list \<Rightarrow> inventory \<Rightarrow> nat list \<times> inventory" where
  "mutate_nights f room [] ds = ([], ds)"
| "mutate_nights f room (d # rest) ds =
     (case ds (room, d) of
        None \<Rightarrow> mutate_nights f room rest ds
      | Some day \<Rightarrow>
          (case ledger_apply ds
                  \<lparr>mut_key = (room, d), mut_units = f (available_units day),
                   mut_rate = day_rate day, mut_open = is_open day,
                   mut_by = by_reconciliation\<rparr>
                  (Some (version day)) of
             Inl e \<Rightarrow> mutate_nights f room rest ds
           | Inr (v, ds') \<Rightarrow>
               (let (vs, ds'') = mutate_nights f room rest ds' in (v # vs, ds''))))"

text \<open>
  Modelled from the spec: the Ledger mutations that give back the units of the Bookings that
  lose a tie-break (section 4.3), one Booking after the other; the engine is not among the
  sources.
\<close>

fun release_all :: "Booking list \<Rightarrow> inventory \<Rightarrow> inventory" where
  "release_all [] ds = ds"
| "release_all (b # bs) ds =
     release_all bs (snd (mutate_nights (\<lambda>a. a + units b) (room_type_id b) (nights b) ds))"

text \<open>
  Modelled from the spec: the final states of an incoming event (section 4.3): RECEIVED,
  then VALIDATED, then one of these; the engine is not among the sources.
\<close>

datatype outcome = APPLIED | REJECTED core_error | CONFLICT_QUEUED

text \<open>
  Modelled from the spec: validation of a confirmation (section 4.3: capacity and date
  sanity); the engine is not among the sources. \<open>capacity\<close> gives the
  \<open>total_physical_units\<close> of a room type.
\<close>

definition valid_booking :: "(string \<Rightarrow> nat) \<Rightarrow> Booking \<Rightarrow> bool" where
  "valid_booking capacity n \<longleftrightarrow>
     check_in n < check_out n \<and> 0 < units n \<and> units n \<le> capacity (room_type_id n)"

text \<open>
  Modelled from the spec: whether a new Booking fits: on every date of its stay the
  confirmed units and its own stay within the capacity (section 3, the Booking invariant);
  the engine is not among the sources.
\<close>

definition fits :: "(string \<Rightarrow> nat) \<Rightarrow> Booking list \<Rightarrow> Booking \<Rightarrow> bool" where
  "fits capacity bs n \<longleftrightarrow>
     list_all (\<lambda>d. booked_units bs (room_type_id n) d + units n \<le> capacity (room_type_id n))
       (nights n)"

text \<open>
  Modelled from the spec: what the tie-break compares (section 4.3), for the engine that is
  not among the sources: \<open>created_at\<close> first. The spec calls the tie-break deterministic and
  names no second criterion; between equal \<open>created_at\<close> the model takes the dedupe key of
  section 4.2, the channel id and then the external reservation id, so that of two different
  reservations one always goes first.
\<close>

definition tie_key :: "Booking \<Rightarrow> nat \<times> string \<times> string" where
  "tie_key b = (created_at b, source_channel b, external_reservation_id b)"

text \<open>
  Modelled from the spec: the order of the tie-break (section 4.3), for the engine that is
  not among the sources: the earliest \<open>created_at\<close> goes first, and between equal
  \<open>created_at\<close> the smaller dedupe key.
\<close>

definition precedes :: "Booking \<Rightarrow> Booking \<Rightarrow> bool" where
  "precedes a b \<longleftrightarrow> tie_key a < tie_key b"

text \<open>
  Modelled from the spec: the Bookings that can lose the tie-break to \<open>n\<close> (section 4.3),
  for the engine that is not among the sources: the confirmed Bookings that overlap \<open>n\<close> and
  come after it in the order of the tie-break.
\<close>

definition loses_to :: "Booking \<Rightarrow> Booking \<Rightarrow> bool" where
  "loses_to n x \<longleftrightarrow> booking_status x = confirmed \<and> overlaps x n \<and> precedes n x"

text \<open>
  Modelled from the spec: the transition of losing Bookings to the CONFLICT state
  (section 4.3), for the engine that is not among the sources: the Bookings that satisfy \<open>P\<close>
  go to CONFLICT, the others stay as they are.
\<close>

definition to_conflict :: "(Booking \<Rightarrow> bool) \<Rightarrow> Booking list \<Rightarrow> Booking list" where
  "to_conflict P bs = map (\<lambda>x. if P x then x\<lparr>booking_status := CONFLICT\<rparr> else x) bs"

text \<open>
  Modelled from the spec: the Bookings of the Ledger once every Booking that can lose the
  tie-break to \<open>n\<close> has lost (section 4.3), for the engine that is not among the sources: what
  the Bookings that go before \<open>n\<close> leave to it.
\<close>

definition yield_to :: "Booking \<Rightarrow> Booking list \<Rightarrow> Booking list" where
  "yield_to n bs = to_conflict (loses_to n) bs"

text \<open>
  Modelled from the spec: the capacity overflow (section 4.3, and the invariant of Booking
  in section 3), for the engine that is not among the sources: \<open>x\<close> crowds \<open>n\<close> when it
  covers a date of the stay of \<open>n\<close> on which the confirmed units and those of \<open>n\<close> exceed the
  capacity.
\<close>

definition crowds :: "(string \<Rightarrow> nat) \<Rightarrow> Booking list \<Rightarrow> Booking \<Rightarrow> Booking \<Rightarrow> bool" where
  "crowds capacity bs n x \<longleftrightarrow>
     list_ex (\<lambda>d. check_in x \<le> d \<and> d < check_out x \<and>
                  capacity (room_type_id n) < booked_units bs (room_type_id n) d + units n)
       (nights n)"

text \<open>
  Modelled from the spec: the Bookings of the Ledger that can lose the tie-break to \<open>n\<close>
  (section 4.3), the latest first; the engine is not among the sources.
\<close>

definition rivals :: "Booking \<Rightarrow> Booking list \<Rightarrow> Booking list" where
  "rivals n bs = rev (sort_key tie_key (filter (loses_to n) bs))"

text \<open>
  Modelled from the spec: the resolution of a capacity overflow (section 4.3), for the
  engine that is not among the sources: the earliest \<open>created_at\<close> wins, so the rivals of
  \<open>n\<close> lose one after the other, the latest first, and only while they crowd \<open>n\<close>. Each
  loser goes to CONFLICT before the next rival is looked at.
\<close>

fun make_room ::
  "(string \<Rightarrow> nat) \<Rightarrow> Booking \<Rightarrow> Booking list \<Rightarrow> Booking list \<Rightarrow> Booking list" where
  "make_room capacity n [] bs = bs"
| "make_room capacity n (x # xs) bs =
     make_room capacity n xs
       (if crowds capacity bs n x then to_conflict (\<lambda>y. y = x) bs else bs)"

text \<open>
  Modelled from the spec: the losing Bookings (section 4.3), whose units go back to the
  Ledger: the Bookings of \<open>bs\<close> that are changed in \<open>bs'\<close>; the engine is not among the
  sources.
\<close>

definition moved :: "Booking list \<Rightarrow> Booking list \<Rightarrow> Booking list" where
  "moved bs bs' = map fst (filter (\<lambda>(x, x'). x' \<noteq> x) (zip bs bs'))"

text \<open>
  Modelled from the spec: a confirmation event in the Reconciliation Engine (sections 4.2
  and 4.3), which is not among the sources. An invalid event is rejected. A reservation
  already known under its channel and external id creates no second Booking. A Booking that
  fits is confirmed and its units leave the Ledger. On a capacity overflow the earliest
  \<open>created_at\<close> wins: the later Bookings that crowd the new one lose, the latest first; when
  that makes room, the new Booking is confirmed, the losers are in CONFLICT and their units
  are back in the Ledger; when it does not, the new Booking is the loser: it is stored in
  CONFLICT and the others stay as they are. A Booking in CONFLICT stays there: its
  resolution is the cancellation or the operator's, not the engine's.
\<close>

definition receive_confirmation ::
  "(string \<Rightarrow> nat) \<Rightarrow> ledger \<Rightarrow> Booking \<Rightarrow> outcome \<times> ledger" where
  "receive_confirmation capacity st n =
     (if \<not> valid_booking capacity n then (REJECTED ValidationError, st)
      else
        case find_booking (bookings st) (source_channel n) (external_reservation_id n) of
          Some known \<Rightarrow> (APPLIED, st)
        | None \<Rightarrow>
            let reserve = (\<lambda>ds. snd (mutate_nights (\<lambda>a. a - units n) (room_type_id n)
                                        (nights n) ds));
                rest = make_room capacity n (rivals n (bookings st)) (bookings st);
                losers = moved (bookings st) rest
            in if fits capacity rest n then
                 (if losers = [] then APPLIED else CONFLICT_QUEUED,
                  \<lparr>inventory_days = reserve (release_all losers (inventory_days st)),
                   bookings = rest @ [n\<lparr>booking_status := confirmed\<rparr>]\<rparr>)
               else
                 (CONFLICT_QUEUED,
                  st\<lparr>bookings := bookings st @ [n\<lparr>booking_status := CONFLICT\<rparr>]\<rparr>))"

text \<open>
  Modelled from the spec: the status the Ledger holds for the reservation of a Booking,
  looked up by channel and external id (section 4.2); the Ledger is not among the sources.
\<close>

definition status_of :: "ledger \<Rightarrow> Booking \<Rightarrow> booking_status option" where
  "status_of st n =
     map_option booking_status
       (find_booking (bookings st) (source_channel n) (external_reservation_id n))"

text \<open>
  Modelled from the spec: the two orders in which two confirmations can reach the engine
  (section 8, third property); the engine is not among the sources.
\<close>

definition arrive :: "(string \<Rightarrow> nat) \<Rightarrow> ledger \<Rightarrow> Booking \<Rightarrow> Booking \<Rightarrow> ledger" where
  "arrive capacity st first second =
     snd (receive_confirmation capacity (snd (receive_confirmation capacity st first)) second)"

text \<open>
  Modelled from the spec: the double-booking scenario of section 8, for the engine that is
  not among the sources: room type deluxe with capacity 10; Booking A from booking.com,
  2 units, created at \<open>T0\<close>; Booking B from airbnb, 9 units, created later; both for the
  dates 1 and 2 (the stay \<open>[1, 3)\<close>), on a Ledger with 10 units available on each.
\<close>

definition scenario_capacity :: "string \<Rightarrow> nat" where
  "scenario_capacity room = (if room = ''deluxe'' then 10 else 0)"

definition scenario_day :: InventoryDay where
  "scenario_day =
     \<lparr>available_units = 10, day_rate = 120, is_open = True, version = 1,
      last_modified_by = by_manual\<rparr>"

definition scenario_ledger :: ledger where
  "scenario_ledger =
     \<lparr>inventory_days = [(''deluxe'', 1) \<mapsto> scenario_day, (''deluxe'', 2) \<mapsto> scenario_day],
      bookings = []\<rparr>"

definition booking_A :: Booking where
  "booking_A =
     \<lparr>booking_id = 1, room_type_id = ''deluxe'', check_in = 1, check_out = 3,
      source_channel = ''booking.com'', external_reservation_id = ''A'', units = 2,
      booking_status = confirmed, created_at = 100\<rparr>"

definition booking_B :: Booking where
  "booking_B =
     \<lparr>booking_id = 2, room_type_id = ''deluxe'', check_in = 1, check_out = 3,
      source_channel = ''airbnb'', external_reservation_id = ''B'', units = 9,
      booking_status = confirmed, created_at = 101\<rparr>"

text \<open>
  Modelled from the spec: a Ledger for the engine that is not among the sources, like the one
  of the scenario of section 8, that already holds a confirmed Booking C from expedia,
  3 units, created before A and B, for the same dates; and Bookings of 6 units each from
  booking.com and airbnb, the second created later or, for \<open>booking_B6_tie\<close>, at the same
  instant.
\<close>

definition booking_C :: Booking where
  "booking_C =
     \<lparr>booking_id = 3, room_type_id = ''deluxe'', check_in = 1, check_out = 3,
      source_channel = ''expedia'', external_reservation_id = ''C'', units = 3,
      booking_status = confirmed, created_at = 50\<rparr>"

definition ledger_with_C :: ledger where
  "ledger_with_C =
     \<lparr>inventory_days =
        [(''deluxe'', 1) \<mapsto> scenario_day\<lparr>available_units := 7\<rparr>,
         (''deluxe'', 2) \<mapsto> scenario_day\<lparr>available_units := 7\<rparr>],
      bookings = [booking_C]\<rparr>"

definition booking_A6 :: Booking where
  "booking_A6 = booking_A\<lparr>units := 6\<rparr>"

definition booking_B6 :: Booking where
  "booking_B6 = booking_B\<lparr>units := 6\<rparr>"

definition booking_B6_tie :: Booking where
  "booking_B6_tie = booking_B\<lparr>units := 6, created_at := 100\<rparr>"

text \<open>
  Modelled from the spec: a Ledger for the engine that is not among the sources, like the one
  of the scenario of section 8, on which the room type is sold out on both dates: it holds a
  confirmed Booking of all 10 units from expedia, created before A and B.
\<close>

definition booking_C10 :: Booking where
  "booking_C10 = booking_C\<lparr>units := 10\<rparr>"


subsection \<open>Outbound Sync Scheduler: the circuit of a channel\<close>

text \<open>
  Modelled from the spec: \<open>circuit_state\<close> of ChannelAdapterState (section 3); the
  Scheduler is not among the sources.
\<close>

datatype circuit_state = Closed | Open | Half_Open

text \<open>
  Modelled from the spec: ChannelAdapterState (section 3), without the credentials; the
  Scheduler is not among the sources. \<open>opened_at\<close> is the instant the circuit last opened,
  from which the cool-down window runs.
\<close>

record ChannelAdapterState =
  last_successful_sync_at :: "nat option"
  consecutive_failure_count :: nat
  circuit :: circuit_state
  opened_at :: nat

text \<open>
  Modelled from the spec: the threshold \<open>K\<close> of consecutive failures and the cool-down
  window (section 4.4); the Scheduler is not among the sources.
\<close>

record breaker_config =
  failure_threshold :: nat
  cool_down :: nat

text \<open>
  Modelled from the spec: the default threshold \<open>K = 5\<close> (section 4.4), with a cool-down
  window of any length; the Scheduler is not among the sources.
\<close>

definition default_config :: "nat \<Rightarrow> breaker_config" where
  "default_config window = \<lparr>failure_threshold = 5, cool_down = window\<rparr>"

text \<open>
  Modelled from the spec: what the Scheduler does with the queue of a channel in one cycle
  (section 4.4); the Scheduler is not among the sources.
\<close>

datatype dispatch = Dispatch_Batch | Send_Probe | Suspended

text \<open>
  Modelled from the spec: the dispatch decision for a channel at the instant \<open>now\<close>
  (section 4.4), which is not among the sources. A closed circuit dispatches. An open one
  suspends dispatch for the cool-down window; after the window a \<open>half_open\<close> probe task is
  sent. While the probe is out, nothing else is sent.
\<close>

definition next_dispatch ::
  "breaker_config \<Rightarrow> nat \<Rightarrow> ChannelAdapterState \<Rightarrow> dispatch \<times> ChannelAdapterState" where
  "next_dispatch cfg now c =
     (case circuit c of
        Closed \<Rightarrow> (Dispatch_Batch, c)
      | Open \<Rightarrow>
          if opened_at c + cool_down cfg \<le> now then (Send_Probe, c\<lparr>circuit := Half_Open\<rparr>)
          else (Suspended, c)
      | Half_Open \<Rightarrow> (Suspended, c))"

text \<open>
  Modelled from the spec: the outcome of a dispatch (section 4.4), which is not among the
  sources. A success resets the count, and closes the circuit when it answers the probe. A
  failure counts; after \<open>K\<close> consecutive failures the circuit opens, and a failed probe
  opens it again. An open circuit has nothing in flight.
\<close>

definition record_outcome ::
  "breaker_config \<Rightarrow> nat \<Rightarrow> bool \<Rightarrow> ChannelAdapterState \<Rightarrow> ChannelAdapterState" where
  "record_outcome cfg now ok c =
     (case circuit c of
        Open \<Rightarrow> c
      | Closed \<Rightarrow>
          if ok then c\<lparr>last_successful_sync_at := Some now, consecutive_failure_count := 0\<rparr>
          else if failure_threshold cfg \<le> consecutive_failure_count c + 1
          then c\<lparr>consecutive_failure_count := consecutive_failure_count c + 1,
                 circuit := Open, opened_at := now\<rparr>
          else c\<lparr>consecutive_failure_count := consecutive_failure_count c + 1\<rparr>
      | Half_Open \<Rightarrow>
          if ok then c\<lparr>last_successful_sync_at := Some now, consecutive_failure_count := 0,
                       circuit := Closed\<rparr>
          else c\<lparr>consecutive_failure_count := consecutive_failure_count c + 1,
                 circuit := Open, opened_at := now\<rparr>)"

text \<open>
  Modelled from the spec: consecutive dispatch failures of a channel (section 4.4), reported
  at the instants of the list; the Scheduler is not among the sources.
\<close>

fun failures :: "breaker_config \<Rightarrow> nat list \<Rightarrow> ChannelAdapterState \<Rightarrow> ChannelAdapterState" where
  "failures cfg [] c = c"
| "failures cfg (t # ts) c = failures cfg ts (record_outcome cfg t False c)"

text \<open>
  Modelled from the spec: the dispatch decisions of the Scheduler (section 4.4), which is not
  among the sources, over the cycles at the instants of the list, while no outcome comes in.
\<close>

fun cycles :: "breaker_config \<Rightarrow> nat list \<Rightarrow> ChannelAdapterState \<Rightarrow> dispatch list" where
  "cycles cfg [] c = []"
| "cycles cfg (t # ts) c =
     (case next_dispatch cfg t c of (d, c') \<Rightarrow> d # cycles cfg ts c')"

section \<open>Properties of the dashboard\<close>

subsection \<open>Rounded products of random Numbers\<close>

lemma bit_length_0 [simp]: "bit_length 0 = 0"
  by (simp add: bit_length.simps)

lemma bit_length_Suc_0 [simp]: "bit_length (Suc 0) = Suc 0"
  by (subst bit_length.simps) simp

lemma bit_length_numeral [simp]:
  "bit_length (numeral k) = Suc (bit_length (numeral k div 2))"
  by (subst bit_length.simps) simp

lemma bit_length_le: "n < 2 ^ j \<Longrightarrow> bit_length n \<le> j"
proof (induction n arbitrary: j rule: bit_length.induct)
  case (1 n)
  show ?case
  proof (cases "n = 0")
    case True
    then show ?thesis by simp
  next
    case False
    with "1.prems" obtain j' where j: "j = Suc j'" by (cases j) auto
    with "1.prems" have "n div 2 < 2 ^ j'" by auto
    with "1.IH" [OF False] have "bit_length (n div 2) \<le> j'" by blast
    with False j show ?thesis by (subst bit_length.simps) simp
  qed
qed

lemma round_half_even_le: "2 * (round_half_even p s * 2 ^ s) \<le> 2 * p + 2 ^ s"
proof -
  define q r where "q = p div 2 ^ s" and "r = p mod 2 ^ s"
  have p: "p = q * 2 ^ s + r"
    unfolding q_def r_def using div_mult_mod_eq [of p "2 ^ s"] by simp
  have r: "r < 2 ^ s" unfolding r_def by simp
  show ?thesis
    unfolding round_half_even_def Let_def q_def [symmetric] r_def [symmetric]
    using r by (auto simp: p algebra_simps)
qed

text \<open>
  The rounding is the runtime's, not real arithmetic: for the Number next to 10/11 the exact
  product is below 10 and the binary64 product is 10.
\<close>

lemma multiply_rounds_up_example:
  "Math_floor (multiply (Float64 8188362958855447 (- 53)) 11) = 10 \<and>
   8188362958855447 * 11 div (2 ^ 53 :: nat) = 9"
  by (simp add: Math_floor_def multiply_def round_half_even_def Let_def)

text \<open>
  \<^verbatim>\<open>Math.floor(Math.random() * n)\<close> is one of \<open>0, \<dots>, n - 1\<close>, for a literal \<open>n\<close> that is
  not a power of two (\<open>2^(j-1) < n < 2^j\<close>), as 11 and 50 are.
\<close>

lemma floor_multiply_bounds:
  assumes x: "is_random_result x" and nj: "n < 2 ^ j" and jn: "2 ^ j < 2 * n"
  shows "0 \<le> Math_floor (multiply x n) \<and> Math_floor (multiply x n) < int n"
proof -
  obtain m e where xme: "x = Float64 m e" by (cases x)
  define p where "p = m * n"
  define s where "s = bit_length p - 53"
  define m' where "m' = round_half_even p s"
  have res: "multiply x n = Float64 m' (e + int s)"
    by (simp add: multiply_def Let_def xme p_def s_def m'_def)
  have npos: "0 < n" using jn by (cases n) auto
  have nonneg: "0 \<le> Math_floor (multiply x n)"
    by (simp add: Math_floor_def)
  have upper: "Math_floor (multiply x n) < int n"
  proof (cases "e < 0")
    case False
    with x have "m = 0" by (simp add: is_random_result_def xme)
    then have "m' = 0" by (simp add: m'_def p_def s_def round_half_even_def)
    with npos show ?thesis by (simp add: res Math_floor_def)
  next
    case True
    define E where "E = nat (- e)"
    from True x have mE: "m < 2 ^ E" and m53: "m < 2 ^ 53"
      by (simp_all add: is_random_result_def xme E_def)
    have "p < 2 ^ 53 * 2 ^ j"
      unfolding p_def using m53 nj npos by (intro mult_strict_mono) auto
    then have "p < 2 ^ (53 + j)" by (simp add: power_add)
    then have "bit_length p \<le> 53 + j" by (rule bit_length_le)
    then have "s \<le> j" by (simp add: s_def)
    then have "(2::nat) ^ s \<le> 2 ^ j" by (intro power_increasing) simp_all
    then have s2n: "2 ^ s < 2 * n" using jn by (rule le_less_trans)
    have "Suc m \<le> 2 ^ E" using mE by simp
    then have "n * Suc m \<le> n * 2 ^ E" by (rule mult_le_mono2)
    then have "2 * p + 2 * n \<le> 2 * (n * 2 ^ E)" by (simp add: p_def algebra_simps)
    moreover have "2 * (m' * 2 ^ s) \<le> 2 * p + 2 ^ s"
      unfolding m'_def by (rule round_half_even_le)
    ultimately have key: "m' * 2 ^ s < n * 2 ^ E" using s2n by linarith
    show ?thesis
    proof (cases "E \<le> s")
      case True
      then have es: "0 \<le> e + int s" and d: "nat (e + int s) = s - E"
        using \<open>e < 0\<close> by (simp_all add: E_def)
      have pw: "(2::nat) ^ (s - E) * 2 ^ E = 2 ^ s"
        using True by (simp add: power_add [symmetric])
      have "(m' * 2 ^ (s - E)) * 2 ^ E < n * 2 ^ E"
        using key pw by (metis mult.assoc)
      then have "m' * 2 ^ (s - E) < n" by (rule mult_right_less_imp_less) simp
      then have "int (m' * 2 ^ (s - E)) < int n" by (simp only: of_nat_less_iff)
      then show ?thesis by (simp only: res Math_floor_def float64.sel es d if_True)
    next
      case False
      then have es: "\<not> 0 \<le> e + int s" and d: "nat (- (e + int s)) = E - s"
        using \<open>e < 0\<close> by (simp_all add: E_def)
      have pw: "(2::nat) ^ (E - s) * 2 ^ s = 2 ^ E"
        using False by (simp add: power_add [symmetric])
      have "m' * 2 ^ s < (n * 2 ^ (E - s)) * 2 ^ s"
        using key pw by (metis mult.assoc)
      then have "m' < n * 2 ^ (E - s)" by (rule mult_right_less_imp_less) simp
      then have "m' div 2 ^ (E - s) < n" by (simp add: less_mult_imp_div_less)
      then have "int (m' div 2 ^ (E - s)) < int n" by (simp only: of_nat_less_iff)
      then show ?thesis by (simp only: res Math_floor_def float64.sel es d if_False)
    qed
  qed
  from nonneg upper show ?thesis ..
qed

lemma inventory_bounds:
  "is_random_result x \<Longrightarrow>
   0 \<le> Math_floor (multiply x 11) \<and> Math_floor (multiply x 11) \<le> 10"
  using floor_multiply_bounds [of x 11 4] by simp

lemma rate_bounds:
  "is_random_result x \<Longrightarrow>
   100 \<le> 100 + Math_floor (multiply x 50) \<and> 100 + Math_floor (multiply x 50) \<le> 149"
  using floor_multiply_bounds [of x 50 6] by simp

subsection \<open>The loops of the generator\<close>

lemma days_loop_done:
  "\<not> i < days \<Longrightarrow> days_loop lib rnd startDate days rid data k i = Inr (data, k)"
  by (subst days_loop.simps) simp

lemma days_loop_step:
  assumes "i < days" and "data rid = Some row"
  shows "days_loop lib rnd startDate days rid data k i =
         days_loop lib rnd startDate days rid
           (data(rid \<mapsto> row(format lib (addDays lib startDate i) ''yyyy-MM-dd'' \<mapsto>
              \<lparr>date = format lib (addDays lib startDate i) ''yyyy-MM-dd'',
               inventory = Math_floor (multiply (rnd k) 11),
               rate = 100 + Math_floor (multiply (rnd (Suc k)) 50),
               isSoldOut = (Math_floor (multiply (rnd k) 11) = 0)\<rparr>)))
           (Suc (Suc k)) (Suc i)"
  by (subst days_loop.simps) (simp add: assms Let_def Math_random_def)

text \<open>
  The loop over the days returns, leaves the other rows alone, and adds to its row a cell
  under the key of every day; each cell of the row is an old one or one the loop made.
\<close>

lemma days_loop_result:
  assumes "data rid = Some row" and "n = days - i"
  shows "\<exists>data' row'.
           days_loop lib rnd startDate days rid data k i = Inr (data', k + 2 * (days - i)) \<and>
           data' rid = Some row' \<and>
           (\<forall>r. r \<noteq> rid \<longrightarrow> data' r = data r) \<and>
           dom row' =
             dom row \<union> (\<lambda>j. format lib (addDays lib startDate j) ''yyyy-MM-dd'') ` {i..<days} \<and>
           (\<forall>key c. row' key = Some c \<longrightarrow>
                row key = Some c \<or>
                (\<exists>a. c = \<lparr>date = key,
                           inventory = Math_floor (multiply (rnd a) 11),
                           rate = 100 + Math_floor (multiply (rnd (Suc a)) 50),
                           isSoldOut = (Math_floor (multiply (rnd a) 11) = 0)\<rparr>))"
  using assms
proof (induction n arbitrary: i data row k)
  case 0
  then have fin: "\<not> i < days" by simp
  then have "days_loop lib rnd startDate days rid data k i = Inr (data, k + 2 * (days - i))"
    by (simp add: days_loop_done)
  moreover have "{i..<days} = {}" using fin by simp
  ultimately show ?case
    using "0.prems"(1) by (intro exI [of _ data] exI [of _ row]) simp
next
  case (Suc n)
  then have i: "i < days" by simp
  let ?key = "format lib (addDays lib startDate i) ''yyyy-MM-dd''"
  let ?cell = "\<lparr>date = ?key, inventory = Math_floor (multiply (rnd k) 11),
                rate = 100 + Math_floor (multiply (rnd (Suc k)) 50),
                isSoldOut = (Math_floor (multiply (rnd k) 11) = 0)\<rparr>"
  let ?r1 = "row(?key \<mapsto> ?cell)"
  let ?d1 = "data(rid \<mapsto> ?r1)"
  have step: "days_loop lib rnd startDate days rid data k i =
              days_loop lib rnd startDate days rid ?d1 (Suc (Suc k)) (Suc i)"
    using i Suc.prems(1) by (rule days_loop_step)
  have f1: "?d1 rid = Some ?r1" by simp
  have f2: "n = days - Suc i" using Suc.prems(2) by simp
  from Suc.IH [where data = ?d1 and row = ?r1 and i = "Suc i" and k = "Suc (Suc k)", OF f1 f2]
  obtain data' row' where
    res: "days_loop lib rnd startDate days rid ?d1 (Suc (Suc k)) (Suc i) =
          Inr (data', Suc (Suc k) + 2 * (days - Suc i))" and
    row': "data' rid = Some row'" and
    others: "\<forall>r. r \<noteq> rid \<longrightarrow> data' r = ?d1 r" and
    keys: "dom row' =
             dom ?r1 \<union>
             (\<lambda>j. format lib (addDays lib startDate j) ''yyyy-MM-dd'') ` {Suc i..<days}" and
    cells: "\<forall>key c. row' key = Some c \<longrightarrow>
              ?r1 key = Some c \<or>
              (\<exists>a. c = \<lparr>date = key,
                         inventory = Math_floor (multiply (rnd a) 11),
                         rate = 100 + Math_floor (multiply (rnd (Suc a)) 50),
                         isSoldOut = (Math_floor (multiply (rnd a) 11) = 0)\<rparr>)"
    by (elim exE conjE) (rule that)
  have count: "Suc (Suc k) + 2 * (days - Suc i) = k + 2 * (days - i)"
    using i by simp
  have c1: "days_loop lib rnd startDate days rid data k i = Inr (data', k + 2 * (days - i))"
    using step res count by simp
  have c3: "\<forall>r. r \<noteq> rid \<longrightarrow> data' r = data r"
    using others by simp
  have "{i..<days} = insert i {Suc i..<days}"
    using i by auto
  then have c4: "dom row' =
      dom row \<union> (\<lambda>j. format lib (addDays lib startDate j) ''yyyy-MM-dd'') ` {i..<days}"
    using keys by simp
  have c5: "\<forall>key c. row' key = Some c \<longrightarrow>
              row key = Some c \<or>
              (\<exists>a. c = \<lparr>date = key,
                         inventory = Math_floor (multiply (rnd a) 11),
                         rate = 100 + Math_floor (multiply (rnd (Suc a)) 50),
                         isSoldOut = (Math_floor (multiply (rnd a) 11) = 0)\<rparr>)"
  proof (intro allI impI)
    fix key c assume "row' key = Some c"
    with cells have "?r1 key = Some c \<or>
              (\<exists>a. c = \<lparr>date = key,
                         inventory = Math_floor (multiply (rnd a) 11),
                         rate = 100 + Math_floor (multiply (rnd (Suc a)) 50),
                         isSoldOut = (Math_floor (multiply (rnd a) 11) = 0)\<rparr>)"
      by blast
    then show "row key = Some c \<or>
              (\<exists>a. c = \<lparr>date = key,
                         inventory = Math_floor (multiply (rnd a) 11),
                         rate = 100 + Math_floor (multiply (rnd (Suc a)) 50),
                         isSoldOut = (Math_floor (multiply (rnd a) 11) = 0)\<rparr>)"
      by (cases "key = ?key") auto
  qed
  from c1 row' c3 c4 c5 show ?case by blast
qed

text \<open>
  \<^verbatim>\<open>forEach\<close> over rooms with different ids returns; every room has a row whose keys are
  the keys of the days, and every cell of these rows was made by the loop.
\<close>

lemma rooms_forEach_result:
  assumes "distinct (map rt_id rooms)"
  shows "\<exists>data' k'.
           rooms_forEach lib rnd startDate days rooms data k = Inr (data', k') \<and>
           (\<forall>r. r \<notin> rt_id ` set rooms \<longrightarrow> data' r = data r) \<and>
           (\<forall>room \<in> set rooms. \<exists>row.
              data' (rt_id room) = Some row \<and>
              dom row = (\<lambda>j. format lib (addDays lib startDate j) ''yyyy-MM-dd'') ` {0..<days} \<and>
              (\<forall>key c. row key = Some c \<longrightarrow>
                 (\<exists>a. c = \<lparr>date = key,
                            inventory = Math_floor (multiply (rnd a) 11),
                            rate = 100 + Math_floor (multiply (rnd (Suc a)) 50),
                            isSoldOut = (Math_floor (multiply (rnd a) 11) = 0)\<rparr>)))"
  using assms
proof (induction rooms arbitrary: data k)
  case Nil
  show ?case by simp
next
  case (Cons room rooms)
  let ?rid = "rt_id room"
  let ?d0 = "data(?rid \<mapsto> Map.empty)"
  have fresh: "?rid \<notin> rt_id ` set rooms" and dist: "distinct (map rt_id rooms)"
    using Cons.prems by auto
  have f1: "?d0 ?rid = Some Map.empty" by simp
  from days_loop_result [where data = ?d0 and rid = ?rid and row = Map.empty and i = 0
      and days = days and lib = lib and rnd = rnd and startDate = startDate and k = k,
      OF f1 refl]
  obtain data1 row1 where
    loop: "days_loop lib rnd startDate days ?rid ?d0 k 0 = Inr (data1, k + 2 * (days - 0))" and
    row1: "data1 ?rid = Some row1" and
    others1: "\<forall>r. r \<noteq> ?rid \<longrightarrow> data1 r = ?d0 r" and
    keys1: "dom row1 =
              dom (Map.empty :: string \<rightharpoonup> DailyStats) \<union>
              (\<lambda>j. format lib (addDays lib startDate j) ''yyyy-MM-dd'') ` {0..<days}" and
    cells1: "\<forall>key c. row1 key = Some c \<longrightarrow>
               (Map.empty :: string \<rightharpoonup> DailyStats) key = Some c \<or>
               (\<exists>a. c = \<lparr>date = key,
                          inventory = Math_floor (multiply (rnd a) 11),
                          rate = 100 + Math_floor (multiply (rnd (Suc a)) 50),
                          isSoldOut = (Math_floor (multiply (rnd a) 11) = 0)\<rparr>)"
    by (elim exE conjE) (rule that)
  from Cons.IH [where data = data1 and k = "k + 2 * (days - 0)", OF dist]
  obtain data' k' where
    rest: "rooms_forEach lib rnd startDate days rooms data1 (k + 2 * (days - 0)) =
           Inr (data', k')" and
    others: "\<forall>r. r \<notin> rt_id ` set rooms \<longrightarrow> data' r = data1 r" and
    rows: "\<forall>room \<in> set rooms. \<exists>row.
              data' (rt_id room) = Some row \<and>
              dom row = (\<lambda>j. format lib (addDays lib startDate j) ''yyyy-MM-dd'') ` {0..<days} \<and>
              (\<forall>key c. row key = Some c \<longrightarrow>
                 (\<exists>a. c = \<lparr>date = key,
                            inventory = Math_floor (multiply (rnd a) 11),
                            rate = 100 + Math_floor (multiply (rnd (Suc a)) 50),
                            isSoldOut = (Math_floor (multiply (rnd a) 11) = 0)\<rparr>))"
    by (elim exE conjE) (rule that)
  have c1: "rooms_forEach lib rnd startDate days (room # rooms) data k = Inr (data', k')"
    using loop rest by simp
  have c2: "\<forall>r. r \<notin> rt_id ` set (room # rooms) \<longrightarrow> data' r = data r"
    using others others1 by simp
  have here: "data' ?rid = Some row1"
    using others fresh row1 by simp
  have c3: "\<forall>x \<in> set (room # rooms). \<exists>row.
              data' (rt_id x) = Some row \<and>
              dom row = (\<lambda>j. format lib (addDays lib startDate j) ''yyyy-MM-dd'') ` {0..<days} \<and>
              (\<forall>key c. row key = Some c \<longrightarrow>
                 (\<exists>a. c = \<lparr>date = key,
                            inventory = Math_floor (multiply (rnd a) 11),
                            rate = 100 + Math_floor (multiply (rnd (Suc a)) 50),
                            isSoldOut = (Math_floor (multiply (rnd a) 11) = 0)\<rparr>))"
  proof
    fix x assume "x \<in> set (room # rooms)"
    then consider "x = room" | "x \<in> set rooms" by auto
    then show "\<exists>row.
              data' (rt_id x) = Some row \<and>
              dom row = (\<lambda>j. format lib (addDays lib startDate j) ''yyyy-MM-dd'') ` {0..<days} \<and>
              (\<forall>key c. row key = Some c \<longrightarrow>
                 (\<exists>a. c = \<lparr>date = key,
                            inventory = Math_floor (multiply (rnd a) 11),
                            rate = 100 + Math_floor (multiply (rnd (Suc a)) 50),
                            isSoldOut = (Math_floor (multiply (rnd a) 11) = 0)\<rparr>))"
    proof cases
      case 1
      have "dom row1 = (\<lambda>j. format lib (addDays lib startDate j) ''yyyy-MM-dd'') ` {0..<days}"
        using keys1 by simp
      moreover have "\<forall>key c. row1 key = Some c \<longrightarrow>
                 (\<exists>a. c = \<lparr>date = key,
                            inventory = Math_floor (multiply (rnd a) 11),
                            rate = 100 + Math_floor (multiply (rnd (Suc a)) 50),
                            isSoldOut = (Math_floor (multiply (rnd a) 11) = 0)\<rparr>)"
        using cells1 by simp
      ultimately show ?thesis using here 1 by (intro exI [of _ row1]) simp
    next
      case 2
      with rows show ?thesis by (rule bspec)
    qed
  qed
  from c1 c2 c3 show ?case by (intro exI [of _ data'] exI [of _ k'] conjI)
qed

text \<open>The ids of \<^verbatim>\<open>ROOM_TYPES\<close> are different, so no room resets the row of another.\<close>

lemma ROOM_TYPES_distinct: "distinct (map rt_id ROOM_TYPES)"
  by (simp add: ROOM_TYPES_def)

text \<open>A cell the loop made from Numbers in [0, 1) is within the ranges.\<close>

lemma generated_cell_ranges:
  assumes "is_random_result (rnd a)" and "is_random_result (rnd (Suc a))"
    and "c = \<lparr>date = key,
              inventory = Math_floor (multiply (rnd a) 11),
              rate = 100 + Math_floor (multiply (rnd (Suc a)) 50),
              isSoldOut = (Math_floor (multiply (rnd a) 11) = 0)\<rparr>"
  shows "0 \<le> inventory c \<and> inventory c \<le> 10 \<and> 100 \<le> rate c \<and> rate c \<le> 149 \<and>
         (isSoldOut c \<longleftrightarrow> inventory c = 0)"
  using inventory_bounds [OF assms(1)] rate_bounds [OF assms(2)] assms(3) by simp

subsection \<open>The generator on one day\<close>

text \<open>
  A run of the generator: one day, on a date-fns stand-in over day numbers, with a random
  source that always returns 0.5. \<^verbatim>\<open>Math.floor(0.5 * 11)\<close> is 5 and
  \<^verbatim>\<open>100 + Math.floor(0.5 * 50)\<close> is 125; the eight calls of \<^verbatim>\<open>Math.random\<close> fill one cell
  for each of the four room types.
\<close>

lemma half_example:
  "Math_floor (multiply (Float64 4503599627370496 (- 53)) 11) = 5"
  "Math_floor (multiply (Float64 4503599627370496 (- 53)) 50) = 25"
  by (simp_all add: Math_floor_def multiply_def round_half_even_def Let_def)

lemma days_loop_one_day:
  "days_loop \<lparr>addDays = (\<lambda>d n. d + n), format = (\<lambda>d p. replicate d (CHR ''x''))\<rparr>
      (\<lambda>k. Float64 4503599627370496 (- 53)) (0::nat) (Suc 0) rid (data(rid \<mapsto> Map.empty)) k 0 =
   Inr (data(rid \<mapsto> [[] \<mapsto> \<lparr>date = [], inventory = 5, rate = 125, isSoldOut = False\<rparr>]),
        Suc (Suc k))"
  apply (subst days_loop.simps)
  apply (simp add: Let_def Math_random_def half_example)
  apply (subst days_loop.simps)
  apply simp
  done

lemma generateMockData_example:
  "generateMockData \<lparr>addDays = (\<lambda>d n. d + n), format = (\<lambda>d p. replicate d (CHR ''x''))\<rparr>
      (\<lambda>k. Float64 4503599627370496 (- 53)) 0 (0::nat) 1 =
   Inr ([''deluxe'' \<mapsto> [[] \<mapsto> \<lparr>date = [], inventory = 5, rate = 125, isSoldOut = False\<rparr>],
         ''standard'' \<mapsto> [[] \<mapsto> \<lparr>date = [], inventory = 5, rate = 125, isSoldOut = False\<rparr>],
         ''suite'' \<mapsto> [[] \<mapsto> \<lparr>date = [], inventory = 5, rate = 125, isSoldOut = False\<rparr>],
         ''family'' \<mapsto> [[] \<mapsto> \<lparr>date = [], inventory = 5, rate = 125, isSoldOut = False\<rparr>]],
        8)"
  by (simp add: generateMockData_def ROOM_TYPES_def days_loop_one_day)

subsection \<open>The generated values and the grid\<close>

text \<open>
  Claim C2. When \<^verbatim>\<open>Math.random\<close> returns Numbers in [0, 1), \<^verbatim>\<open>generateMockData\<close> returns a
  grid that has, for every room type and every day \<open>i\<close> below \<open>days\<close>, a cell whose inventory
  is between 0 and 10, whose rate is between 100 and 149, and whose \<^verbatim>\<open>isSoldOut\<close> is true
  exactly when the inventory is 0.
\<close>

theorem generateMockData_ranges:
  assumes "\<forall>k. is_random_result (rnd k)"
  shows "\<exists>data k'.
           generateMockData lib rnd k0 startDate days = Inr (data, k') \<and>
           (\<forall>room \<in> set ROOM_TYPES. \<forall>i < days. \<exists>row cell.
              data (rt_id room) = Some row \<and>
              row (format lib (addDays lib startDate i) ''yyyy-MM-dd'') = Some cell \<and>
              0 \<le> inventory cell \<and> inventory cell \<le> 10 \<and>
              100 \<le> rate cell \<and> rate cell \<le> 149 \<and>
              (isSoldOut cell \<longleftrightarrow> inventory cell = 0))"
proof -
  from rooms_forEach_result [OF ROOM_TYPES_distinct, where lib = lib and rnd = rnd
      and startDate = startDate and days = days and data = Map.empty and k = k0]
  obtain data k' where
    res: "rooms_forEach lib rnd startDate days ROOM_TYPES Map.empty k0 = Inr (data, k')" and
    rows: "\<forall>room \<in> set ROOM_TYPES. \<exists>row.
              data (rt_id room) = Some row \<and>
              dom row = (\<lambda>j. format lib (addDays lib startDate j) ''yyyy-MM-dd'') ` {0..<days} \<and>
              (\<forall>key c. row key = Some c \<longrightarrow>
                 (\<exists>a. c = \<lparr>date = key,
                            inventory = Math_floor (multiply (rnd a) 11),
                            rate = 100 + Math_floor (multiply (rnd (Suc a)) 50),
                            isSoldOut = (Math_floor (multiply (rnd a) 11) = 0)\<rparr>))"
    by (elim exE conjE) (rule that)
  have "\<exists>row cell.
          data (rt_id room) = Some row \<and>
          row (format lib (addDays lib startDate i) ''yyyy-MM-dd'') = Some cell \<and>
          0 \<le> inventory cell \<and> inventory cell \<le> 10 \<and>
          100 \<le> rate cell \<and> rate cell \<le> 149 \<and>
          (isSoldOut cell \<longleftrightarrow> inventory cell = 0)"
    if room: "room \<in> set ROOM_TYPES" and i: "i < days" for room i
  proof -
    let ?key = "format lib (addDays lib startDate i) ''yyyy-MM-dd''"
    from rows room obtain row where
      row: "data (rt_id room) = Some row" and
      keys: "dom row = (\<lambda>j. format lib (addDays lib startDate j) ''yyyy-MM-dd'') ` {0..<days}" and
      cells: "\<forall>key c. row key = Some c \<longrightarrow>
                 (\<exists>a. c = \<lparr>date = key,
                            inventory = Math_floor (multiply (rnd a) 11),
                            rate = 100 + Math_floor (multiply (rnd (Suc a)) 50),
                            isSoldOut = (Math_floor (multiply (rnd a) 11) = 0)\<rparr>)"
      by blast
    from i have "?key \<in> dom row" unfolding keys by simp
    then obtain cell where cell: "row ?key = Some cell" by blast
    with cells obtain a where
      "cell = \<lparr>date = ?key,
               inventory = Math_floor (multiply (rnd a) 11),
               rate = 100 + Math_floor (multiply (rnd (Suc a)) 50),
               isSoldOut = (Math_floor (multiply (rnd a) 11) = 0)\<rparr>"
      by blast
    then have "0 \<le> inventory cell \<and> inventory cell \<le> 10 \<and>
               100 \<le> rate cell \<and> rate cell \<le> 149 \<and>
               (isSoldOut cell \<longleftrightarrow> inventory cell = 0)"
      using assms by (intro generated_cell_ranges [where rnd = rnd and a = a and key = ?key]) simp_all
    with row cell show ?thesis by blast
  qed
  with res show ?thesis unfolding generateMockData_def by blast
qed

text \<open>
  The theorem at a date-fns stand-in on day numbers and a source that cycles through eight
  Numbers: the cell of the second day of the deluxe room.
\<close>

theorem generateMockData_ranges_witness:
  "(\<forall>k. is_random_result (Float64 ((k mod 8) * 1125899906842624) (- 53))) \<and>
   (\<exists>data k' row cell.
      generateMockData
        \<lparr>addDays = (\<lambda>d n. d + n), format = (\<lambda>d p. replicate d (CHR ''x''))\<rparr>
        (\<lambda>k. Float64 ((k mod 8) * 1125899906842624) (- 53)) 0 (0::nat) 2 = Inr (data, k') \<and>
      data ''deluxe'' = Some row \<and> row ''x'' = Some cell \<and>
      0 \<le> inventory cell \<and> inventory cell \<le> 10 \<and>
      100 \<le> rate cell \<and> rate cell \<le> 149 \<and>
      (isSoldOut cell \<longleftrightarrow> inventory cell = 0))"
proof -
  have valid: "\<forall>k. is_random_result (Float64 ((k mod 8) * 1125899906842624) (- 53))"
  proof
    fix k :: nat
    have "k mod 8 < 8" by simp
    then have "(k mod 8) * 1125899906842624 < 8 * 1125899906842624" by simp
    then show "is_random_result (Float64 ((k mod 8) * 1125899906842624) (- 53))"
      by (simp add: is_random_result_def)
  qed
  have room: "\<lparr>rt_id = ''deluxe'', rt_name = ''Deluxe King''\<rparr> \<in> set ROOM_TYPES"
    by (simp add: ROOM_TYPES_def)
  from generateMockData_ranges [OF valid,
      where lib = "\<lparr>addDays = (\<lambda>d n. d + n), format = (\<lambda>d p. replicate d (CHR ''x''))\<rparr>"
      and ?k0.0 = 0 and startDate = "0::nat" and days = 2]
  obtain data k' where
    res: "generateMockData
        \<lparr>addDays = (\<lambda>d n. d + n), format = (\<lambda>d p. replicate d (CHR ''x''))\<rparr>
        (\<lambda>k. Float64 ((k mod 8) * 1125899906842624) (- 53)) 0 (0::nat) 2 = Inr (data, k')" and
    all: "\<forall>room \<in> set ROOM_TYPES. \<forall>i < 2. \<exists>row cell.
              data (rt_id room) = Some row \<and>
              row (format \<lparr>addDays = (\<lambda>d n. d + n), format = (\<lambda>d p. replicate d (CHR ''x''))\<rparr>
                    (addDays \<lparr>addDays = (\<lambda>d n. d + n),
                       format = (\<lambda>d p. replicate d (CHR ''x''))\<rparr> 0 i) ''yyyy-MM-dd'') = Some cell \<and>
              0 \<le> inventory cell \<and> inventory cell \<le> 10 \<and>
              100 \<le> rate cell \<and> rate cell \<le> 149 \<and>
              (isSoldOut cell \<longleftrightarrow> inventory cell = 0)"
    by (elim exE conjE) (rule that)
  from all room have "\<exists>row cell.
              data ''deluxe'' = Some row \<and> row ''x'' = Some cell \<and>
              0 \<le> inventory cell \<and> inventory cell \<le> 10 \<and>
              100 \<le> rate cell \<and> rate cell \<le> 149 \<and>
              (isSoldOut cell \<longleftrightarrow> inventory cell = 0)"
    by (auto dest!: bspec [where x = "\<lparr>rt_id = ''deluxe'', rt_name = ''Deluxe King''\<rparr>"]
        spec [where x = "Suc 0"])
  with res valid show ?thesis by blast
qed

lemma map_throwing_Inr:
  assumes "\<And>x. x \<in> set xs \<Longrightarrow> \<exists>y. f x = Inr y"
  shows "\<exists>ys. map_throwing f xs = Inr ys \<and> length ys = length xs"
  using assms
proof (induction xs)
  case Nil
  show ?case by simp
next
  case (Cons x xs)
  from Cons.prems obtain y where y: "f x = Inr y" by auto
  from Cons obtain ys where "map_throwing f xs = Inr ys" and "length ys = length xs" by auto
  with y show ?case by simp
qed

lemma data_cell_defined:
  assumes "gridData (rt_id room) = Some row"
    and "row (format lib dt ''yyyy-MM-dd'') = Some cellData"
  shows "\<exists>v. data_cell lib gridData room dt = Inr v"
  using assms by (simp add: data_cell_def Let_def)

lemma map_throwing_set:
  "map_throwing f xs = Inr ys \<Longrightarrow> y \<in> set ys \<Longrightarrow> \<exists>x \<in> set xs. f x = Inr y"
proof (induction xs arbitrary: ys)
  case Nil
  then show ?case by simp
next
  case (Cons x xs)
  from Cons.prems(1) obtain z zs where
    z: "f x = Inr z" and zs: "map_throwing f xs = Inr zs" and ys: "ys = z # zs"
    by (auto split: sum.splits)
  from Cons.prems(2) ys consider "y = z" | "y \<in> set zs" by auto
  then show ?case
  proof cases
    case 1
    with z show ?thesis by simp
  next
    case 2
    with Cons.IH [OF zs] show ?thesis by auto
  qed
qed

lemma data_cell_Inr:
  assumes "data_cell lib gridData room dt = Inr cv"
  shows "\<exists>row c. gridData (rt_id room) = Some row \<and> row (cell_key cv) = Some c \<and>
           label cv = (if isSoldOut c then SOLD else Units (inventory c)) \<and>
           shown_rate cv = rate c \<and>
           colorClass cv = getCellColor (inventory c) (isSoldOut c)"
  using assms by (auto simp: data_cell_def Let_def split: option.splits)

text \<open>
  The render of the grid: the generator returns, every lookup finds its cell, and the view
  has a row of 30 cells for each room type, each cell read from the generated grid.
\<close>

lemma InventoryGrid_renders:
  "\<exists>gridData k' view.
     generateMockData lib rnd k today 30 = Inr (gridData, k') \<and>
     (\<forall>room \<in> set ROOM_TYPES. \<forall>i < 30. \<exists>row cellData.
        gridData (rt_id room) = Some row \<and>
        row (format lib (addDays lib today i) ''yyyy-MM-dd'') = Some cellData) \<and>
     InventoryGrid lib rnd k today = Inr (view, k') \<and>
     length (rows view) = length ROOM_TYPES \<and> length (header view) = 30 \<and>
     (\<forall>r \<in> set (rows view). length (snd r) = 30 \<and>
        (\<forall>cv \<in> set (snd r). \<exists>room \<in> set ROOM_TYPES. \<exists>row c.
           gridData (rt_id room) = Some row \<and> row (cell_key cv) = Some c \<and>
           label cv = (if isSoldOut c then SOLD else Units (inventory c)) \<and>
           shown_rate cv = rate c \<and>
           colorClass cv = getCellColor (inventory c) (isSoldOut c)))"
proof -
  from rooms_forEach_result [OF ROOM_TYPES_distinct, where lib = lib and rnd = rnd
      and startDate = today and days = 30 and data = Map.empty and k = k]
  obtain gridData k' where
    res: "rooms_forEach lib rnd today 30 ROOM_TYPES Map.empty k = Inr (gridData, k')" and
    rows: "\<forall>room \<in> set ROOM_TYPES. \<exists>row.
              gridData (rt_id room) = Some row \<and>
              dom row = (\<lambda>j. format lib (addDays lib today j) ''yyyy-MM-dd'') ` {0..<30} \<and>
              (\<forall>key c. row key = Some c \<longrightarrow>
                 (\<exists>a. c = \<lparr>date = key,
                            inventory = Math_floor (multiply (rnd a) 11),
                            rate = 100 + Math_floor (multiply (rnd (Suc a)) 50),
                            isSoldOut = (Math_floor (multiply (rnd a) 11) = 0)\<rparr>))"
    by (elim exE conjE) (rule that)
  have gen: "generateMockData lib rnd k today 30 = Inr (gridData, k')"
    using res by (simp add: generateMockData_def)
  have found: "\<exists>row cellData.
        gridData (rt_id room) = Some row \<and>
        row (format lib (addDays lib today i) ''yyyy-MM-dd'') = Some cellData"
    if "room \<in> set ROOM_TYPES" and "i < 30" for room and i :: nat
  proof -
    from rows that(1) obtain row where
      row: "gridData (rt_id room) = Some row" and
      keys: "dom row = (\<lambda>j. format lib (addDays lib today j) ''yyyy-MM-dd'') ` {0..<30}"
      by blast
    from that(2) have "format lib (addDays lib today i) ''yyyy-MM-dd'' \<in> dom row"
      unfolding keys by simp
    with row show ?thesis by blast
  qed
  let ?dateHeaders = "map (addDays lib today) [0..<30]"
  let ?render_row = "\<lambda>room. case map_throwing (data_cell lib gridData room) ?dateHeaders of
                              Inl e \<Rightarrow> Inl e
                            | Inr cells \<Rightarrow> Inr (rt_name room, cells)"
  have cell: "\<exists>v. data_cell lib gridData room dt = Inr v"
    if "room \<in> set ROOM_TYPES" and "dt \<in> set ?dateHeaders" for room dt
  proof -
    from that(2) obtain i :: nat where "i < 30" and "dt = addDays lib today i" by auto
    with found [OF that(1), of i] show ?thesis by (auto intro: data_cell_defined)
  qed
  have row_ok: "\<exists>y. ?render_row room = Inr y" if "room \<in> set ROOM_TYPES" for room
  proof -
    from map_throwing_Inr [of ?dateHeaders "data_cell lib gridData room"] cell [OF that]
    obtain cells where "map_throwing (data_cell lib gridData room) ?dateHeaders = Inr cells"
      by blast
    then show ?thesis by simp
  qed
  from map_throwing_Inr [of ROOM_TYPES ?render_row] row_ok
  obtain rs where
    rs: "map_throwing ?render_row ROOM_TYPES = Inr rs" and
    len: "length rs = length ROOM_TYPES"
    by blast
  have row_cells: "length (snd r) = 30 \<and>
        (\<forall>cv \<in> set (snd r). \<exists>room \<in> set ROOM_TYPES. \<exists>row c.
           gridData (rt_id room) = Some row \<and> row (cell_key cv) = Some c \<and>
           label cv = (if isSoldOut c then SOLD else Units (inventory c)) \<and>
           shown_rate cv = rate c \<and>
           colorClass cv = getCellColor (inventory c) (isSoldOut c))"
    if "r \<in> set rs" for r
  proof -
    from map_throwing_set [OF rs that] obtain room where
      room: "room \<in> set ROOM_TYPES" and r: "?render_row room = Inr r"
      by blast
    from r obtain cells where
      cells: "map_throwing (data_cell lib gridData room) ?dateHeaders = Inr cells" and
      r': "r = (rt_name room, cells)"
      by (auto split: sum.splits)
    from map_throwing_Inr [of ?dateHeaders "data_cell lib gridData room"] cell [OF room] cells
    have "length cells = 30" by auto
    moreover have "\<exists>row c.
           gridData (rt_id room) = Some row \<and> row (cell_key cv) = Some c \<and>
           label cv = (if isSoldOut c then SOLD else Units (inventory c)) \<and>
           shown_rate cv = rate c \<and>
           colorClass cv = getCellColor (inventory c) (isSoldOut c)"
      if "cv \<in> set cells" for cv
    proof -
      from map_throwing_set [OF cells that] obtain dt where
        "data_cell lib gridData room dt = Inr cv" by blast
      then show ?thesis by (rule data_cell_Inr)
    qed
    ultimately show ?thesis using room unfolding r' snd_conv by blast
  qed
  let ?view = "\<lparr>header = map (\<lambda>dt. (format lib dt ''EEE'', format lib dt ''d MMM'')) ?dateHeaders,
                rows = rs\<rparr>"
  have "InventoryGrid lib rnd k today = Inr (?view, k')"
    using gen rs by (simp add: InventoryGrid_def Let_def)
  moreover have "length (rows ?view) = length ROOM_TYPES \<and> length (header ?view) = 30"
    using len by simp
  moreover have "\<forall>r \<in> set (rows ?view). length (snd r) = 30 \<and>
        (\<forall>cv \<in> set (snd r). \<exists>room \<in> set ROOM_TYPES. \<exists>row c.
           gridData (rt_id room) = Some row \<and> row (cell_key cv) = Some c \<and>
           label cv = (if isSoldOut c then SOLD else Units (inventory c)) \<and>
           shown_rate cv = rate c \<and>
           colorClass cv = getCellColor (inventory c) (isSoldOut c))"
    using row_cells by simp
  ultimately show ?thesis using gen found by blast
qed

text \<open>
  Claim C9. \<^verbatim>\<open>generateMockData\<close>, called with the start date and the 30 days of the grid,
  returns a grid in which every lookup \<^verbatim>\<open>gridData[room.id][dateStr]\<close> of the render finds
  a cell, for each entry of \<^verbatim>\<open>ROOM_TYPES\<close> and each of the 30 date headers; so the render
  returns a view and throws no TypeError. This holds for every random source and every start
  date.
\<close>

theorem InventoryGrid_lookups_defined:
  "\<exists>gridData k' view.
     generateMockData lib rnd k today 30 = Inr (gridData, k') \<and>
     (\<forall>room \<in> set ROOM_TYPES. \<forall>i < 30. \<exists>row cellData.
        gridData (rt_id room) = Some row \<and>
        row (format lib (addDays lib today i) ''yyyy-MM-dd'') = Some cellData) \<and>
     InventoryGrid lib rnd k today = Inr (view, k') \<and>
     length (rows view) = length ROOM_TYPES \<and> length (header view) = 30"
  using InventoryGrid_renders [of lib rnd k today] by blast

text \<open>
  The theorem at a date-fns stand-in on day numbers and a constant random source: the
  lookup of the last day of the family room.
\<close>

theorem InventoryGrid_lookups_defined_witness:
  "\<exists>gridData k' view row cellData.
     generateMockData
       \<lparr>addDays = (\<lambda>d n. d + n), format = (\<lambda>d p. replicate d (CHR ''x''))\<rparr>
       (\<lambda>k. Float64 0 0) 0 (0::nat) 30 = Inr (gridData, k') \<and>
     gridData ''family'' = Some row \<and>
     row (replicate 29 (CHR ''x'')) = Some cellData \<and>
     InventoryGrid
       \<lparr>addDays = (\<lambda>d n. d + n), format = (\<lambda>d p. replicate d (CHR ''x''))\<rparr>
       (\<lambda>k. Float64 0 0) 0 (0::nat) = Inr (view, k') \<and>
     length (rows view) = 4"
proof -
  have room: "\<lparr>rt_id = ''family'', rt_name = ''Family Room''\<rparr> \<in> set ROOM_TYPES"
    by (simp add: ROOM_TYPES_def)
  from InventoryGrid_lookups_defined
    [where lib = "\<lparr>addDays = (\<lambda>d n. d + n), format = (\<lambda>d p. replicate d (CHR ''x''))\<rparr>"
      and rnd = "\<lambda>k. Float64 0 0" and k = 0 and today = "0::nat"]
  obtain gridData k' view where
    gen: "generateMockData
       \<lparr>addDays = (\<lambda>d n. d + n), format = (\<lambda>d p. replicate d (CHR ''x''))\<rparr>
       (\<lambda>k. Float64 0 0) 0 (0::nat) 30 = Inr (gridData, k')" and
    all: "\<forall>room \<in> set ROOM_TYPES. \<forall>i < 30. \<exists>row cellData.
        gridData (rt_id room) = Some row \<and>
        row (format \<lparr>addDays = (\<lambda>d n. d + n), format = (\<lambda>d p. replicate d (CHR ''x''))\<rparr>
              (addDays \<lparr>addDays = (\<lambda>d n. d + n),
                 format = (\<lambda>d p. replicate d (CHR ''x''))\<rparr> 0 i) ''yyyy-MM-dd'') =
          Some cellData" and
    view: "InventoryGrid
       \<lparr>addDays = (\<lambda>d n. d + n), format = (\<lambda>d p. replicate d (CHR ''x''))\<rparr>
       (\<lambda>k. Float64 0 0) 0 (0::nat) = Inr (view, k')" and
    len: "length (rows view) = length ROOM_TYPES"
    by (elim exE conjE) (rule that)
  from all room have "\<exists>row cellData.
        gridData ''family'' = Some row \<and> row (replicate 29 (CHR ''x'')) = Some cellData"
    by (auto dest!: bspec [where x = "\<lparr>rt_id = ''family'', rt_name = ''Family Room''\<rparr>"]
        spec [where x = "29::nat"])
  moreover have "length (rows view) = 4" using len by (simp add: ROOM_TYPES_def)
  ultimately show ?thesis using gen view by blast
qed

subsection \<open>Where the rendered data comes from\<close>

text \<open>
  Claim C1. What the dashboard shows comes from the file's own constants and from the mock
  generator. The grid has one row for each room type and 30 cells in each, and every cell
  shows the inventory, the rate and the colour of a cell that \<^verbatim>\<open>generateMockData\<close> stored,
  which draws on \<^verbatim>\<open>Math.random\<close> alone. The channel widget is the static \<^verbatim>\<open>CHANNELS\<close> list,
  rendered. The handler of Apply Changes does two things, for every form: it writes one
  line to the console and calls \<^verbatim>\<open>onOpenChange(false)\<close>; no other event of the page writes
  to the console. The components have no further effect: no request, no store.
\<close>

theorem dashboard_data_is_local:
  "(\<exists>gridData k' view.
      generateMockData lib rnd k today 30 = Inr (gridData, k') \<and>
      InventoryGrid lib rnd k today = Inr (view, k') \<and>
      length (rows view) = length ROOM_TYPES \<and>
      (\<forall>r \<in> set (rows view). length (snd r) = 30 \<and>
         (\<forall>cv \<in> set (snd r). \<exists>room \<in> set ROOM_TYPES. \<exists>row c.
            gridData (rt_id room) = Some row \<and> row (cell_key cv) = Some c \<and>
            label cv = (if isSoldOut c then SOLD else Units (inventory c)) \<and>
            shown_rate cv = rate c \<and>
            colorClass cv = getCellColor (inventory c) (isSoldOut c)))) \<and>
   ChannelHealthWidget = map render_channel CHANNELS \<and>
   (\<forall>form :: 'f form_state.
      handleUpdate form = [console_log ''Updating'' form, onOpenChange False]) \<and>
   (\<forall>(s :: 'f page_state) e.
      e \<noteq> Apply_Changes_click \<longrightarrow> console (handle e s) = console s)"
proof -
  have grid: "\<exists>gridData k' view.
      generateMockData lib rnd k today 30 = Inr (gridData, k') \<and>
      InventoryGrid lib rnd k today = Inr (view, k') \<and>
      length (rows view) = length ROOM_TYPES \<and>
      (\<forall>r \<in> set (rows view). length (snd r) = 30 \<and>
         (\<forall>cv \<in> set (snd r). \<exists>room \<in> set ROOM_TYPES. \<exists>row c.
            gridData (rt_id room) = Some row \<and> row (cell_key cv) = Some c \<and>
            label cv = (if isSoldOut c then SOLD else Units (inventory c)) \<and>
            shown_rate cv = rate c \<and>
            colorClass cv = getCellColor (inventory c) (isSoldOut c)))"
    using InventoryGrid_renders [of lib rnd k today] by blast
  have widget: "ChannelHealthWidget = map render_channel CHANNELS"
    by (simp add: ChannelHealthWidget_def)
  have handler: "\<forall>form :: 'f form_state.
      handleUpdate form = [console_log ''Updating'' form, onOpenChange False]"
    by (simp add: handleUpdate_def)
  have quiet: "\<forall>(s :: 'f page_state) e.
      e \<noteq> Apply_Changes_click \<longrightarrow> console (handle e s) = console s"
  proof (intro allI impI)
    fix s :: "'f page_state" and e :: "'f event"
    assume "e \<noteq> Apply_Changes_click"
    then show "console (handle e s) = console s" by (cases e) simp_all
  qed
  from grid widget handler quiet show ?thesis by (intro conjI)
qed

text \<open>
  The theorem at a date-fns stand-in on day numbers and a constant random source: the
  first cell of the first row of the view, and the click on Bulk Update.
\<close>

theorem dashboard_data_is_local_witness:
  "\<exists>gridData k' view r cv room row c.
     generateMockData
       \<lparr>addDays = (\<lambda>d n. d + n), format = (\<lambda>d p. replicate d (CHR ''x''))\<rparr>
       (\<lambda>k. Float64 0 0) 0 (0::nat) 30 = Inr (gridData, k') \<and>
     InventoryGrid
       \<lparr>addDays = (\<lambda>d n. d + n), format = (\<lambda>d p. replicate d (CHR ''x''))\<rparr>
       (\<lambda>k. Float64 0 0) 0 (0::nat) = Inr (view, k') \<and>
     r \<in> set (rows view) \<and> cv \<in> set (snd r) \<and> room \<in> set ROOM_TYPES \<and>
     gridData (rt_id room) = Some row \<and> row (cell_key cv) = Some c \<and>
     shown_rate cv = rate c \<and>
     Bulk_Update_click \<noteq> (Apply_Changes_click :: nat event) \<and>
     console (handle Bulk_Update_click (initial_page (0::nat))) = console (initial_page 0)"
proof -
  let ?lib = "\<lparr>addDays = (\<lambda>d n. d + n), format = (\<lambda>d p. replicate d (CHR ''x''))\<rparr>
                :: nat date_fns"
  from dashboard_data_is_local [where lib = ?lib and rnd = "\<lambda>k. Float64 0 0" and k = 0
      and today = "0::nat", where ?'f = nat]
  obtain gridData k' view where
    gen: "generateMockData ?lib (\<lambda>k. Float64 0 0) 0 (0::nat) 30 = Inr (gridData, k')" and
    view: "InventoryGrid ?lib (\<lambda>k. Float64 0 0) 0 (0::nat) = Inr (view, k')" and
    len: "length (rows view) = length ROOM_TYPES" and
    cells: "\<forall>r \<in> set (rows view). length (snd r) = 30 \<and>
         (\<forall>cv \<in> set (snd r). \<exists>room \<in> set ROOM_TYPES. \<exists>row c.
            gridData (rt_id room) = Some row \<and> row (cell_key cv) = Some c \<and>
            label cv = (if isSoldOut c then SOLD else Units (inventory c)) \<and>
            shown_rate cv = rate c \<and>
            colorClass cv = getCellColor (inventory c) (isSoldOut c))" and
    quiet: "\<forall>(s :: nat page_state) e.
      e \<noteq> Apply_Changes_click \<longrightarrow> console (handle e s) = console s"
    by (elim exE conjE) (rule that)
  from len have "rows view \<noteq> []" by (auto simp: ROOM_TYPES_def)
  then obtain r where r: "r \<in> set (rows view)" by (cases "rows view") auto
  with cells have "length (snd r) = 30" by blast
  then have "snd r \<noteq> []" by auto
  then obtain cv where cv: "cv \<in> set (snd r)" by (cases "snd r") auto
  with cells r obtain room row c where
    "room \<in> set ROOM_TYPES" "gridData (rt_id room) = Some row" "row (cell_key cv) = Some c"
    "shown_rate cv = rate c"
    by blast
  moreover have ne: "Bulk_Update_click \<noteq> (Apply_Changes_click :: nat event)" by simp
  moreover from quiet ne
  have "console (handle Bulk_Update_click (initial_page (0::nat))) = console (initial_page 0)"
    by blast
  ultimately show ?thesis using gen view r cv by blast
qed

subsection \<open>The channel widget\<close>

text \<open>
  Claim C3. The channel health widget shows exactly the four channels Booking.com, Airbnb,
  Expedia and Agoda, in this order; the status of each is \<open>online\<close> or \<open>error\<close> (Expedia is
  the one in error). The widget is a constant: it reads no state and changes none, and its
  two buttons, Refresh All and Reconnect, leave the state of the page as it is.
\<close>

theorem ChannelHealthWidget_read_only:
  "map card_title ChannelHealthWidget = [''Booking.com'', ''Airbnb'', ''Expedia'', ''Agoda''] \<and>
   map status CHANNELS = [online, online, error, online] \<and>
   map card_icon ChannelHealthWidget = [CheckCircle2, CheckCircle2, AlertCircle, CheckCircle2] \<and>
   (\<forall>s :: 'f page_state. handle Refresh_All_click s = s) \<and>
   (\<forall>(s :: 'f page_state) channel. handle (Reconnect_click channel) s = s)"
  by (simp add: ChannelHealthWidget_def CHANNELS_def render_channel_def)

subsection \<open>The handler of Apply Changes\<close>

text \<open>
  Claim C10. The handler of Apply Changes validates nothing. For every form, also one with
  an empty room type, an empty rate and no date range, \<^verbatim>\<open>handleUpdate\<close> logs the values
  of the form as they are and closes the drawer: the console gains the line, the drawer flag
  becomes false, and the form is kept. No form is rejected and none raises an error.
\<close>

theorem handleUpdate_no_validation:
  "handle Apply_Changes_click s =
     s\<lparr>console := console s @ [(''Updating'', drawer_form s)], isDrawerOpen := False\<rparr> \<and>
   handleUpdate \<lparr>form_date = None, roomType = '''', form_rate = '''', isOpen = b\<rparr> =
     [console_log ''Updating'' \<lparr>form_date = None, roomType = '''', form_rate = '''', isOpen = b\<rparr>,
      onOpenChange False]"
  by (simp add: handleUpdate_def)

section \<open>Properties of the synchronization core\<close>

subsection \<open>Optimistic locking in the Ledger\<close>

lemma ledger_apply_stale:
  "expected_version \<noteq> stored_version ds (mut_key m) \<Longrightarrow>
   ledger_apply ds m expected_version = Inl VersionConflict"
  by (simp add: ledger_apply_def)

lemma ledger_apply_current:
  "\<exists>v ds'. ledger_apply ds m (stored_version ds (mut_key m)) = Inr (v, ds')"
  by (simp add: ledger_apply_def Let_def)

lemma ledger_apply_Inr:
  assumes "ledger_apply ds m expected_version = Inr (v, ds')"
  shows "expected_version = stored_version ds (mut_key m)"
    and "stored_version ds' (mut_key m) = Some v"
    and "key \<noteq> mut_key m \<Longrightarrow> ds' key = ds key"
    and "stored_version ds (mut_key m) = Some v0 \<Longrightarrow> v = v0 + 1"
    and "dom ds' = insert (mut_key m) (dom ds)"
  using assms
  by (auto simp: ledger_apply_def Let_def stored_version_def split: if_splits option.splits)

lemma version_history_increasing:
  "sorted_wrt (<) (version_history key ds calls) \<and>
   (\<forall>v0. stored_version ds key = Some v0 \<longrightarrow>
      (\<forall>v \<in> set (version_history key ds calls). v0 < v))"
proof (induction calls arbitrary: ds)
  case Nil
  show ?case by simp
next
  case (Cons call calls)
  obtain m expected_version where call: "call = (m, expected_version)" by (cases call)
  show ?case
  proof (cases "ledger_apply ds m expected_version")
    case (Inl e)
    with Cons.IH [of ds] call show ?thesis by simp
  next
    case (Inr r)
    obtain v ds' where r: "r = (v, ds')" by (cases r)
    note ok = Inr [unfolded r]
    note later = Cons.IH [of ds']
    show ?thesis
    proof (cases "mut_key m = key")
      case False
      then have "stored_version ds' key = stored_version ds key"
        using ledger_apply_Inr(3) [OF ok, of key] by (simp add: stored_version_def)
      with later False ok call show ?thesis by simp
    next
      case True
      have now: "stored_version ds' key = Some v"
        using ledger_apply_Inr(2) [OF ok] True by simp
      have hist: "version_history key ds (call # calls) = v # version_history key ds' calls"
        using ok call True by simp
      have after: "\<forall>w \<in> set (version_history key ds' calls). v < w"
        using later now by blast
      have before: "v0 < v" if "stored_version ds key = Some v0" for v0
        using ledger_apply_Inr(4) [OF ok, of v0] that True by simp
      have "sorted_wrt (<) (v # version_history key ds' calls)"
        using later after by simp
      moreover have "\<forall>v0. stored_version ds key = Some v0 \<longrightarrow>
          (\<forall>w \<in> set (v # version_history key ds' calls). v0 < w)"
        using before after by fastforce
      ultimately show ?thesis unfolding hist by blast
    qed
  qed
qed

text \<open>
  Claim C4. A write whose expected version is not the stored one fails with
  VersionConflict. A write with the stored version succeeds, and the version it stores and
  returns is above the one stored before. Over any sequence of \<open>apply\<close> calls, the versions
  stored for a key, in the order of the calls, increase strictly, and all are above the
  version the key had at the start.
\<close>

theorem ledger_optimistic_lock:
  "(expected_version \<noteq> stored_version ds (mut_key m) \<longrightarrow>
      ledger_apply ds m expected_version = Inl VersionConflict) \<and>
   (\<exists>v ds'. ledger_apply ds m (stored_version ds (mut_key m)) = Inr (v, ds')) \<and>
   (\<forall>v ds'. ledger_apply ds m expected_version = Inr (v, ds') \<longrightarrow>
      stored_version ds' (mut_key m) = Some v \<and>
      (\<forall>v0. stored_version ds (mut_key m) = Some v0 \<longrightarrow> v0 < v)) \<and>
   sorted_wrt (<) (version_history key ds calls) \<and>
   (\<forall>v0. stored_version ds key = Some v0 \<longrightarrow>
      (\<forall>v \<in> set (version_history key ds calls). v0 < v))"
proof -
  have "stored_version ds' (mut_key m) = Some v \<and>
        (\<forall>v0. stored_version ds (mut_key m) = Some v0 \<longrightarrow> v0 < v)"
    if "ledger_apply ds m expected_version = Inr (v, ds')" for v ds'
    using ledger_apply_Inr(2) [OF that] ledger_apply_Inr(4) [OF that] by auto
  then show ?thesis
    using ledger_apply_stale [of expected_version ds m] ledger_apply_current [of ds m]
      version_history_increasing [of key ds calls]
    by blast
qed

text \<open>
  The theorem on an empty Ledger: a first write, a write with the version read, a stale
  write and another good one store the versions 1, 2 and 3 for the key.
\<close>

theorem ledger_optimistic_lock_witness:
  "version_history (''deluxe'', 1) Map.empty
     [(\<lparr>mut_key = (''deluxe'', 1), mut_units = 10, mut_rate = 120, mut_open = True,
        mut_by = by_manual\<rparr>, None),
      (\<lparr>mut_key = (''deluxe'', 1), mut_units = 8, mut_rate = 120, mut_open = True,
        mut_by = by_reconciliation\<rparr>, Some 1),
      (\<lparr>mut_key = (''deluxe'', 1), mut_units = 7, mut_rate = 120, mut_open = True,
        mut_by = by_channel ''airbnb''\<rparr>, Some 1),
      (\<lparr>mut_key = (''deluxe'', 1), mut_units = 7, mut_rate = 150, mut_open = True,
        mut_by = by_manual\<rparr>, Some 2)] = [1, 2, 3] \<and>
   sorted_wrt (<) [1, 2, 3 :: nat] \<and>
   Some 1 \<noteq> stored_version Map.empty (''deluxe'', 1 :: nat) \<and>
   ledger_apply Map.empty
     \<lparr>mut_key = (''deluxe'', 1), mut_units = 7, mut_rate = 120, mut_open = True,
      mut_by = by_manual\<rparr> (Some 1) = Inl VersionConflict"
proof -
  let ?k = "(''deluxe'', 1 :: nat)"
  let ?m = "\<lparr>mut_key = ?k, mut_units = 7, mut_rate = 120, mut_open = True, mut_by = by_manual\<rparr>"
  let ?calls = "[(\<lparr>mut_key = ?k, mut_units = 10, mut_rate = 120, mut_open = True,
        mut_by = by_manual\<rparr>, None),
      (\<lparr>mut_key = ?k, mut_units = 8, mut_rate = 120, mut_open = True,
        mut_by = by_reconciliation\<rparr>, Some 1),
      (\<lparr>mut_key = ?k, mut_units = 7, mut_rate = 120, mut_open = True,
        mut_by = by_channel ''airbnb''\<rparr>, Some 1),
      (\<lparr>mut_key = ?k, mut_units = 7, mut_rate = 150, mut_open = True,
        mut_by = by_manual\<rparr>, Some (2 :: nat))]"
  have hist: "version_history ?k Map.empty ?calls = [1, 2, 3]"
    by (simp add: ledger_apply_def stored_version_def)
  have stale: "Some 1 \<noteq> stored_version Map.empty ?k"
    by (simp add: stored_version_def)
  note inst = ledger_optimistic_lock [of "Some 1" Map.empty ?m ?k ?calls]
  from inst have conflict: "Some 1 \<noteq> stored_version Map.empty (mut_key ?m) \<longrightarrow>
      ledger_apply Map.empty ?m (Some 1) = Inl VersionConflict"
    by (rule conjunct1)
  from inst have "sorted_wrt (<) (version_history ?k Map.empty ?calls)"
    by (elim conjE)
  then have "sorted_wrt (<) [1, 2, 3 :: nat]"
    unfolding hist .
  with conflict
  show ?thesis using hist stale by simp
qed

subsection \<open>The tie-break of the Reconciliation Engine\<close>

text \<open>The order of the tie-break is a strict order, total on different channels.\<close>

lemma precedes_asym: "precedes a b \<Longrightarrow> \<not> precedes b a"
  by (simp add: precedes_def less_asym)

lemma precedes_trans: "precedes a b \<Longrightarrow> precedes b c \<Longrightarrow> precedes a c"
  unfolding precedes_def by (rule less_trans)

lemma precedes_total:
  "source_channel a \<noteq> source_channel b \<Longrightarrow> precedes a b \<or> precedes b a"
  by (auto simp: precedes_def tie_key_def)


lemma earlier_precedes: "created_at a < created_at b \<Longrightarrow> precedes a b"
  by (simp add: precedes_def tie_key_def)

lemma precedes_status [simp]:
  "precedes a (b\<lparr>booking_status := s\<rparr>) = precedes a b"
  "precedes (a\<lparr>booking_status := s\<rparr>) b = precedes a b"
  by (simp_all add: precedes_def tie_key_def)

lemma overlaps_status [simp]:
  "overlaps a (b\<lparr>booking_status := s\<rparr>) = overlaps a b"
  "overlaps (a\<lparr>booking_status := s\<rparr>) b = overlaps a b"
  by (simp_all add: overlaps_def)

lemma overlaps_sym: "overlaps a b = overlaps b a"
  by (auto simp: overlaps_def)

lemma loses_to_CONFLICT [simp]: "\<not> loses_to n (x\<lparr>booking_status := CONFLICT\<rparr>)"
  by (simp add: loses_to_def)

text \<open>Lookups by channel and external id, through the changes an event makes.\<close>

lemma find_booking_append:
  "find_booking (bs @ cs) ch ext =
     (case find_booking bs ch ext of Some x \<Rightarrow> Some x | None \<Rightarrow> find_booking cs ch ext)"
  by (induction bs) simp_all

lemma find_booking_to_conflict:
  "find_booking (to_conflict P bs) ch ext =
     map_option (\<lambda>x. if P x then x\<lparr>booking_status := CONFLICT\<rparr> else x)
       (find_booking bs ch ext)"
  by (induction bs) (auto simp: to_conflict_def)

lemma to_conflict_append: "to_conflict P (bs @ cs) = to_conflict P bs @ to_conflict P cs"
  by (simp add: to_conflict_def)

lemma to_conflict_Cons:
  "to_conflict P (x # bs) =
     (if P x then x\<lparr>booking_status := CONFLICT\<rparr> else x) # to_conflict P bs"
  by (simp add: to_conflict_def)

lemma to_conflict_Nil [simp]: "to_conflict P [] = []"
  by (simp add: to_conflict_def)

lemma to_conflict_twice:
  "to_conflict Q (to_conflict P bs) = to_conflict (\<lambda>x. P x \<or> Q x) bs"
  by (induction bs) (auto simp: to_conflict_Cons)

lemma yield_to_append: "yield_to n (bs @ cs) = yield_to n bs @ yield_to n cs"
  by (simp add: yield_to_def to_conflict_append)

lemma yield_to_single:
  "yield_to n [x] = [if loses_to n x then x\<lparr>booking_status := CONFLICT\<rparr> else x]"
  by (simp add: yield_to_def to_conflict_Cons)

text \<open>Bookings that have lost to \<open>n\<close> change nothing in what the others leave to \<open>n\<close>.\<close>

lemma yield_to_to_conflict:
  assumes "\<And>x. P x \<Longrightarrow> loses_to n x"
  shows "yield_to n (to_conflict P bs) = yield_to n bs"
proof -
  have "(\<lambda>x. P x \<or> loses_to n x) = loses_to n"
    using assms by auto
  then show ?thesis by (simp add: yield_to_def to_conflict_twice)
qed

text \<open>The confirmed units on a date, through the same changes.\<close>

lemma booked_units_append:
  "booked_units (bs @ cs) room d = booked_units bs room d + booked_units cs room d"
  by (simp add: booked_units_def)

lemma booked_units_Cons:
  "booked_units (x # bs) room d = booked_units [x] room d + booked_units bs room d"
  by (simp add: booked_units_def)

lemma booked_units_single:
  "booked_units [x] room d =
     (if booking_status x = confirmed \<and> room_type_id x = room \<and> check_in x \<le> d \<and>
         d < check_out x
      then units x else 0)"
  by (simp add: booked_units_def)

lemma booked_units_to_conflict_le:
  "booked_units (to_conflict P bs) room d \<le> booked_units bs room d"
proof (induction bs)
  case Nil
  show ?case by simp
next
  case (Cons x bs)
  have "booked_units [if P x then x\<lparr>booking_status := CONFLICT\<rparr> else x] room d
      \<le> booked_units [x] room d"
    by (simp add: booked_units_single)
  with Cons.IH show ?case
    unfolding to_conflict_Cons
    by (subst booked_units_Cons, subst (2) booked_units_Cons) (rule add_mono)
qed

lemma booked_units_yield_le:
  "booked_units (yield_to n bs) room d \<le> booked_units bs room d"
  unfolding yield_to_def by (rule booked_units_to_conflict_le)

text \<open>
  When \<open>a\<close> goes before \<open>b\<close>, a Booking that loses to \<open>b\<close> on a date of the stay of \<open>a\<close> can
  lose to \<open>a\<close> as well: what the others leave to \<open>a\<close> is the same after Bookings have lost
  to \<open>b\<close>.
\<close>

lemma booked_units_yield_to_conflict:
  assumes "precedes a b" and "\<And>x. P x \<Longrightarrow> loses_to b x"
    and "check_in a \<le> d" and "d < check_out a"
  shows "booked_units (yield_to a (to_conflict P bs)) (room_type_id a) d =
         booked_units (yield_to a bs) (room_type_id a) d"
proof (induction bs)
  case Nil
  show ?case by simp
next
  case (Cons x bs)
  let ?xa = "if loses_to a x then x\<lparr>booking_status := CONFLICT\<rparr> else x"
  let ?xb = "if P x then x\<lparr>booking_status := CONFLICT\<rparr> else x"
  let ?xab = "if loses_to a ?xb then ?xb\<lparr>booking_status := CONFLICT\<rparr> else ?xb"
  have head: "booked_units [?xab] (room_type_id a) d = booked_units [?xa] (room_type_id a) d"
  proof (cases "P x")
    case False
    then show ?thesis by simp
  next
    case True
    then have left: "booked_units [?xab] (room_type_id a) d = 0"
      by (simp add: booked_units_single)
    from True have lb: "loses_to b x" by (rule assms(2))
    have right: "booked_units [?xa] (room_type_id a) d = 0"
    proof (cases "loses_to a x")
      case True
      then show ?thesis by (simp add: booked_units_single)
    next
      case False
      have "\<not> (room_type_id x = room_type_id a \<and> check_in x \<le> d \<and> d < check_out x)"
      proof
        assume here: "room_type_id x = room_type_id a \<and> check_in x \<le> d \<and> d < check_out x"
        from lb have "booking_status x = confirmed" and "precedes b x"
          by (simp_all add: loses_to_def)
        moreover from here assms(3,4) have "overlaps x a"
          by (simp add: overlaps_def)
        moreover from assms(1) \<open>precedes b x\<close> have "precedes a x"
          by (rule precedes_trans)
        ultimately have "loses_to a x" by (simp add: loses_to_def)
        with False show False by contradiction
      qed
      with False show ?thesis by (auto simp add: booked_units_single)
    qed
    from left right show ?thesis by simp
  qed
  have "booked_units (yield_to a (to_conflict P (x # bs))) (room_type_id a) d =
        booked_units [?xab] (room_type_id a) d +
        booked_units (yield_to a (to_conflict P bs)) (room_type_id a) d"
    unfolding yield_to_def to_conflict_Cons by (rule booked_units_Cons)
  moreover have "booked_units (yield_to a (x # bs)) (room_type_id a) d =
        booked_units [?xa] (room_type_id a) d + booked_units (yield_to a bs) (room_type_id a) d"
    unfolding yield_to_def to_conflict_Cons by (rule booked_units_Cons)
  ultimately show ?case using head Cons.IH by simp
qed

text \<open>A date no Booking that can lose to \<open>n\<close> covers has the same units either way.\<close>

lemma booked_units_yield_idle:
  assumes "\<And>x. x \<in> set bs \<Longrightarrow> loses_to n x \<Longrightarrow> \<not> (check_in x \<le> d \<and> d < check_out x)"
  shows "booked_units (yield_to n bs) room d = booked_units bs room d"
  using assms
proof (induction bs)
  case Nil
  show ?case by (simp add: yield_to_def)
next
  case (Cons x bs)
  have "booked_units [if loses_to n x then x\<lparr>booking_status := CONFLICT\<rparr> else x] room d =
        booked_units [x] room d"
    using Cons.prems [of x] by (auto simp: booked_units_single)
  moreover have "booked_units (yield_to n bs) room d = booked_units bs room d"
    using Cons.prems by (intro Cons.IH) auto
  ultimately show ?case
    unfolding yield_to_def to_conflict_Cons
    by (subst booked_units_Cons, subst (2) booked_units_Cons) simp
qed

text \<open>Whether a Booking fits, through the same changes.\<close>

lemma fits_iff:
  "fits capacity bs n \<longleftrightarrow>
     (\<forall>d. check_in n \<le> d \<and> d < check_out n \<longrightarrow>
        booked_units bs (room_type_id n) d + units n \<le> capacity (room_type_id n))"
  by (auto simp: fits_def nights_def list_all_iff)

lemma fits_to_conflict:
  assumes "fits capacity bs n"
  shows "fits capacity (to_conflict P bs) n"
  unfolding fits_iff
proof (intro allI impI)
  fix d assume d: "check_in n \<le> d \<and> d < check_out n"
  with assms have "booked_units bs (room_type_id n) d + units n \<le> capacity (room_type_id n)"
    unfolding fits_iff by blast
  moreover have "booked_units (to_conflict P bs) (room_type_id n) d
      \<le> booked_units bs (room_type_id n) d"
    by (rule booked_units_to_conflict_le)
  ultimately show "booked_units (to_conflict P bs) (room_type_id n) d + units n
      \<le> capacity (room_type_id n)"
    by linarith
qed

lemma fits_yield: "fits capacity bs n \<Longrightarrow> fits capacity (yield_to m bs) n"
  unfolding yield_to_def by (rule fits_to_conflict)

lemma fits_yield_to_conflict:
  assumes "precedes a b" and "\<And>x. P x \<Longrightarrow> loses_to b x"
  shows "fits capacity (yield_to a (to_conflict P bs)) a = fits capacity (yield_to a bs) a"
  unfolding fits_iff using assms by (simp add: booked_units_yield_to_conflict)

lemma fits_append_idle:
  "booking_status x \<noteq> confirmed \<Longrightarrow> fits capacity (bs @ [x]) n = fits capacity bs n"
  unfolding fits_iff by (simp add: booked_units_append booked_units_single)

text \<open>
  A confirmed Booking of the same room type on a common date that exceeds the capacity
  together with \<open>n\<close> leaves no room for \<open>n\<close>.
\<close>

lemma booked_units_member:
  assumes "x \<in> set bs" and "booking_status x = confirmed" and "room_type_id x = room"
    and "check_in x \<le> d" and "d < check_out x"
  shows "units x \<le> booked_units bs room d"
  using assms(1)
proof (induction bs)
  case Nil
  then show ?case by simp
next
  case (Cons y bs)
  show ?case
  proof (cases "x = y")
    case True
    with assms(2-5) have "booked_units [y] room d = units x"
      by (simp add: booked_units_single)
    then show ?thesis by (subst booked_units_Cons) simp
  next
    case False
    with Cons have "units x \<le> booked_units bs room d" by simp
    then show ?thesis by (subst booked_units_Cons) simp
  qed
qed

lemma not_fits_with:
  assumes "x \<in> set bs" and "booking_status x = confirmed" and "overlaps x n"
    and "check_in x < check_out x" and "check_in n < check_out n"
    and "capacity (room_type_id n) < units x + units n"
  shows "\<not> fits capacity bs n"
proof -
  let ?d = "max (check_in x) (check_in n)"
  have d: "check_in n \<le> ?d" "?d < check_out n" "check_in x \<le> ?d" "?d < check_out x"
    and room: "room_type_id x = room_type_id n"
    using assms(3,4,5) by (auto simp: overlaps_def)
  from assms(1,2) room d(3,4) have "units x \<le> booked_units bs (room_type_id n) ?d"
    by (rule booked_units_member)
  with assms(6) have "\<not> booked_units bs (room_type_id n) ?d + units n
      \<le> capacity (room_type_id n)"
    by simp
  with d(1,2) show ?thesis unfolding fits_iff by blast
qed

lemma find_booking_member: "find_booking bs ch ext = Some y \<Longrightarrow> y \<in> set bs"
  by (induction bs) (auto split: if_splits)

text \<open>
  Making room for \<open>n\<close> moves to CONFLICT only Bookings that can lose to \<open>n\<close>, and it makes
  room exactly when the Bookings that go before \<open>n\<close> leave room.
\<close>

lemma crowds_to_conflict:
  assumes "crowds capacity (to_conflict P bs) n x"
  shows "crowds capacity bs n x"
proof -
  from assms obtain d where d: "d \<in> set (nights n)" "check_in x \<le> d" "d < check_out x"
    and over: "capacity (room_type_id n)
      < booked_units (to_conflict P bs) (room_type_id n) d + units n"
    unfolding crowds_def list_ex_iff by (elim bexE conjE)
  have "booked_units (to_conflict P bs) (room_type_id n) d \<le> booked_units bs (room_type_id n) d"
    by (rule booked_units_to_conflict_le)
  with over have "capacity (room_type_id n) < booked_units bs (room_type_id n) d + units n"
    by linarith
  with d show ?thesis unfolding crowds_def list_ex_iff by blast
qed

lemma make_room_to_conflict:
  assumes "\<And>x. x \<in> set cands \<Longrightarrow> loses_to n x"
  shows "\<exists>P. (\<forall>x. P x \<longrightarrow> loses_to n x) \<and> make_room capacity n cands bs = to_conflict P bs"
  using assms
proof (induction cands arbitrary: bs)
  case Nil
  have "to_conflict (\<lambda>x. False) bs = bs"
    by (simp add: to_conflict_def)
  then show ?case by (intro exI [of _ "\<lambda>x. False"]) simp
next
  case (Cons c cands)
  let ?bs = "if crowds capacity bs n c then to_conflict (\<lambda>y. y = c) bs else bs"
  have "\<exists>P. (\<forall>x. P x \<longrightarrow> loses_to n x) \<and> make_room capacity n cands ?bs = to_conflict P ?bs"
    using Cons.prems by (intro Cons.IH) simp
  then obtain P where P: "\<forall>x. P x \<longrightarrow> loses_to n x"
    and eq: "make_room capacity n cands ?bs = to_conflict P ?bs"
    by (elim exE conjE)
  show ?case
  proof (cases "crowds capacity bs n c")
    case True
    have c: "loses_to n c" using Cons.prems by simp
    from True eq have "make_room capacity n (c # cands) bs = to_conflict (\<lambda>x. x = c \<or> P x) bs"
      by (simp add: to_conflict_twice)
    moreover from P c have "\<forall>x. (x = c \<or> P x) \<longrightarrow> loses_to n x" by blast
    ultimately show ?thesis by (intro exI [of _ "\<lambda>x. x = c \<or> P x"]) simp
  next
    case False
    with eq have "make_room capacity n (c # cands) bs = to_conflict P bs" by simp
    with P show ?thesis by (intro exI [of _ P]) simp
  qed
qed

lemma fits_uncrowded:
  assumes room: "fits capacity (yield_to n bs) n"
    and idle: "\<And>x. x \<in> set bs \<Longrightarrow> loses_to n x \<Longrightarrow> \<not> crowds capacity bs n x"
  shows "fits capacity bs n"
  unfolding fits_iff
proof (intro allI impI, rule ccontr)
  fix d assume d: "check_in n \<le> d \<and> d < check_out n"
  assume "\<not> booked_units bs (room_type_id n) d + units n \<le> capacity (room_type_id n)"
  then have over: "capacity (room_type_id n) < booked_units bs (room_type_id n) d + units n"
    by simp
  from d have night: "d \<in> set (nights n)" by (simp add: nights_def)
  have "booked_units (yield_to n bs) (room_type_id n) d = booked_units bs (room_type_id n) d"
  proof (rule booked_units_yield_idle)
    fix x assume "x \<in> set bs" and "loses_to n x"
    then have "\<not> crowds capacity bs n x" by (rule idle)
    with night over show "\<not> (check_in x \<le> d \<and> d < check_out x)"
      unfolding crowds_def list_ex_iff by blast
  qed
  moreover from room d
  have "booked_units (yield_to n bs) (room_type_id n) d + units n \<le> capacity (room_type_id n)"
    unfolding fits_iff by blast
  ultimately show False using over by simp
qed

lemma make_room_fits:
  assumes "fits capacity (yield_to n bs) n"
    and "\<And>x. x \<in> set cands \<Longrightarrow> loses_to n x"
    and "\<And>x. x \<in> set bs \<Longrightarrow> loses_to n x \<Longrightarrow> x \<in> set cands \<or> \<not> crowds capacity bs n x"
  shows "fits capacity (make_room capacity n cands bs) n"
  using assms
proof (induction cands arbitrary: bs)
  case Nil
  then show ?case by (simp add: fits_uncrowded)
next
  case (Cons c cands)
  have c: "loses_to n c" using Cons.prems(2) by simp
  show ?case
  proof (cases "crowds capacity bs n c")
    case True
    let ?bs = "to_conflict (\<lambda>y. y = c) bs"
    have "fits capacity (make_room capacity n cands ?bs) n"
    proof (rule Cons.IH)
      from c have "yield_to n ?bs = yield_to n bs"
        by (intro yield_to_to_conflict) simp
      with Cons.prems(1) show "fits capacity (yield_to n ?bs) n" by simp
    next
      fix x assume "x \<in> set cands"
      then show "loses_to n x" using Cons.prems(2) by simp
    next
      fix x assume x: "x \<in> set ?bs" and lx: "loses_to n x"
      from x obtain y where y: "y \<in> set bs"
        and xy: "x = (if y = c then y\<lparr>booking_status := CONFLICT\<rparr> else y)"
        unfolding to_conflict_def by auto
      from lx xy have "y \<noteq> c" by (cases "y = c") simp_all
      with xy have "x = y" by simp
      with y lx Cons.prems(3) [of x] \<open>y \<noteq> c\<close>
      have "x \<in> set cands \<or> \<not> crowds capacity bs n x" by auto
      then show "x \<in> set cands \<or> \<not> crowds capacity ?bs n x"
        using crowds_to_conflict by blast
    qed
    with True show ?thesis by simp
  next
    case False
    have "fits capacity (make_room capacity n cands bs) n"
    proof (rule Cons.IH)
      show "fits capacity (yield_to n bs) n" by (rule Cons.prems(1))
    next
      fix x assume "x \<in> set cands"
      then show "loses_to n x" using Cons.prems(2) by simp
    next
      fix x assume "x \<in> set bs" and "loses_to n x"
      with Cons.prems(3) [of x] False show "x \<in> set cands \<or> \<not> crowds capacity bs n x"
        by auto
    qed
    with False show ?thesis by simp
  qed
qed

lemma set_rivals: "set (rivals n bs) = {x \<in> set bs. loses_to n x}"
  by (auto simp: rivals_def)

text \<open>
  One confirmation of an unknown, valid reservation \<open>n\<close>: it is confirmed exactly when the
  Bookings that go before it leave it room; then Bookings that can lose to it may have
  lost, and it fits among the rest.
\<close>

lemma receive_confirmation_step:
  assumes "valid_booking capacity n"
    and "find_booking (bookings st) (source_channel n) (external_reservation_id n) = None"
  shows "\<exists>P. (\<forall>x. P x \<longrightarrow> loses_to n x) \<and>
      (fits capacity (yield_to n (bookings st)) n \<longrightarrow>
         fits capacity (to_conflict P (bookings st)) n) \<and>
      bookings (snd (receive_confirmation capacity st n)) =
        (if fits capacity (yield_to n (bookings st)) n
         then to_conflict P (bookings st) @ [n\<lparr>booking_status := confirmed\<rparr>]
         else bookings st @ [n\<lparr>booking_status := CONFLICT\<rparr>])"
proof -
  let ?bs = "bookings st"
  let ?rest = "make_room capacity n (rivals n ?bs) ?bs"
  have "\<exists>P. (\<forall>x. P x \<longrightarrow> loses_to n x) \<and> ?rest = to_conflict P ?bs"
    by (rule make_room_to_conflict) (simp add: set_rivals)
  then obtain P where P: "\<forall>x. P x \<longrightarrow> loses_to n x" and rest: "?rest = to_conflict P ?bs"
    by (elim exE conjE)
  have iff: "fits capacity ?rest n \<longleftrightarrow> fits capacity (yield_to n ?bs) n"
  proof
    assume "fits capacity ?rest n"
    then have "fits capacity (yield_to n ?rest) n" by (rule fits_yield)
    moreover from P have "yield_to n ?rest = yield_to n ?bs"
      unfolding rest by (intro yield_to_to_conflict) simp
    ultimately show "fits capacity (yield_to n ?bs) n" by simp
  next
    assume "fits capacity (yield_to n ?bs) n"
    then show "fits capacity ?rest n"
      by (rule make_room_fits) (simp_all add: set_rivals)
  qed
  have "bookings (snd (receive_confirmation capacity st n)) =
      (if fits capacity ?rest n then ?rest @ [n\<lparr>booking_status := confirmed\<rparr>]
       else ?bs @ [n\<lparr>booking_status := CONFLICT\<rparr>])"
    using assms by (simp add: receive_confirmation_def Let_def)
  then have "bookings (snd (receive_confirmation capacity st n)) =
      (if fits capacity (yield_to n ?bs) n
       then to_conflict P ?bs @ [n\<lparr>booking_status := confirmed\<rparr>]
       else ?bs @ [n\<lparr>booking_status := CONFLICT\<rparr>])"
    using iff by (simp add: rest)
  moreover have "fits capacity (yield_to n ?bs) n \<longrightarrow> fits capacity (to_conflict P ?bs) n"
    using iff rest by simp
  ultimately show ?thesis using P by (intro exI [of _ P] conjI)
qed

lemma status_of_self:
  assumes "valid_booking capacity n"
    and "find_booking (bookings st) (source_channel n) (external_reservation_id n) = None"
  shows "status_of (snd (receive_confirmation capacity st n)) n =
         Some (if fits capacity (yield_to n (bookings st)) n then confirmed else CONFLICT)"
proof -
  from receive_confirmation_step [OF assms(1,2)] obtain P where
    "bookings (snd (receive_confirmation capacity st n)) =
        (if fits capacity (yield_to n (bookings st)) n
         then to_conflict P (bookings st) @ [n\<lparr>booking_status := confirmed\<rparr>]
         else bookings st @ [n\<lparr>booking_status := CONFLICT\<rparr>])"
    by (elim exE conjE) (rule that)
  with assms(2) show ?thesis
    by (simp add: status_of_def find_booking_append find_booking_to_conflict)
qed

lemma find_booking_self:
  assumes "valid_booking capacity n"
    and "find_booking (bookings st) (source_channel n) (external_reservation_id n) = None"
    and "fits capacity (yield_to n (bookings st)) n"
  shows "find_booking (bookings (snd (receive_confirmation capacity st n)))
           (source_channel n) (external_reservation_id n) =
         Some (n\<lparr>booking_status := confirmed\<rparr>)"
proof -
  from receive_confirmation_step [OF assms(1,2)] obtain P where
    "bookings (snd (receive_confirmation capacity st n)) =
        (if fits capacity (yield_to n (bookings st)) n
         then to_conflict P (bookings st) @ [n\<lparr>booking_status := confirmed\<rparr>]
         else bookings st @ [n\<lparr>booking_status := CONFLICT\<rparr>])"
    by (elim exE conjE) (rule that)
  with assms(2,3) show ?thesis
    by (simp add: find_booking_append find_booking_to_conflict)
qed

text \<open>What one confirmation does to the reservation of another channel.\<close>

lemma find_booking_other:
  assumes "valid_booking capacity n"
    and "find_booking (bookings st) (source_channel n) (external_reservation_id n) = None"
    and "source_channel m \<noteq> source_channel n"
  shows "\<exists>P. (\<forall>x. P x \<longrightarrow> loses_to n x) \<and>
      (fits capacity (yield_to n (bookings st)) n \<longrightarrow>
         fits capacity (to_conflict P (bookings st)) n) \<and>
      find_booking (bookings (snd (receive_confirmation capacity st n)))
          (source_channel m) (external_reservation_id m) =
        (if fits capacity (yield_to n (bookings st)) n
         then map_option (\<lambda>x. if P x then x\<lparr>booking_status := CONFLICT\<rparr> else x)
                (find_booking (bookings st) (source_channel m) (external_reservation_id m))
         else find_booking (bookings st) (source_channel m) (external_reservation_id m))"
proof -
  from receive_confirmation_step [OF assms(1,2)] obtain P where P: "\<forall>x. P x \<longrightarrow> loses_to n x"
    and room: "fits capacity (yield_to n (bookings st)) n \<longrightarrow>
         fits capacity (to_conflict P (bookings st)) n"
    and eq: "bookings (snd (receive_confirmation capacity st n)) =
        (if fits capacity (yield_to n (bookings st)) n
         then to_conflict P (bookings st) @ [n\<lparr>booking_status := confirmed\<rparr>]
         else bookings st @ [n\<lparr>booking_status := CONFLICT\<rparr>])"
    by (elim exE conjE) (rule that)
  from assms(3) have "find_booking (bookings (snd (receive_confirmation capacity st n)))
          (source_channel m) (external_reservation_id m) =
        (if fits capacity (yield_to n (bookings st)) n
         then map_option (\<lambda>x. if P x then x\<lparr>booking_status := CONFLICT\<rparr> else x)
                (find_booking (bookings st) (source_channel m) (external_reservation_id m))
         else find_booking (bookings st) (source_channel m) (external_reservation_id m))"
    unfolding eq
    by (simp add: find_booking_append find_booking_to_conflict split: option.splits)
  with P room show ?thesis by (intro exI [of _ P] conjI)
qed

lemma unknown_after:
  assumes "valid_booking capacity n"
    and "find_booking (bookings st) (source_channel n) (external_reservation_id n) = None"
    and "source_channel m \<noteq> source_channel n"
    and "find_booking (bookings st) (source_channel m) (external_reservation_id m) = None"
  shows "find_booking (bookings (snd (receive_confirmation capacity st n)))
           (source_channel m) (external_reservation_id m) = None"
  using find_booking_other [OF assms(1,2,3)] assms(4) by (elim exE conjE) simp

lemma status_kept:
  assumes "valid_booking capacity n"
    and "find_booking (bookings st) (source_channel n) (external_reservation_id n) = None"
    and "source_channel m \<noteq> source_channel n"
    and "\<not> fits capacity (yield_to n (bookings st)) n"
  shows "status_of (snd (receive_confirmation capacity st n)) m = status_of st m"
  using find_booking_other [OF assms(1,2,3)] assms(4)
  by (elim exE conjE) (simp add: status_of_def)

lemma status_conflict_kept:
  assumes "valid_booking capacity n"
    and "find_booking (bookings st) (source_channel n) (external_reservation_id n) = None"
    and "source_channel m \<noteq> source_channel n"
    and "status_of st m = Some CONFLICT"
  shows "status_of (snd (receive_confirmation capacity st n)) m = Some CONFLICT"
proof -
  from find_booking_other [OF assms(1,2,3)] obtain P where
    eq: "find_booking (bookings (snd (receive_confirmation capacity st n)))
          (source_channel m) (external_reservation_id m) =
        (if fits capacity (yield_to n (bookings st)) n
         then map_option (\<lambda>x. if P x then x\<lparr>booking_status := CONFLICT\<rparr> else x)
                (find_booking (bookings st) (source_channel m) (external_reservation_id m))
         else find_booking (bookings st) (source_channel m) (external_reservation_id m))"
    by (elim exE conjE) (rule that)
  from assms(4) obtain y where
    y: "find_booking (bookings st) (source_channel m) (external_reservation_id m) = Some y"
    and "booking_status y = CONFLICT"
    unfolding status_of_def by (elim map_option_eq_Some [THEN iffD1, elim_format] exE conjE)
      (rule that)
  then show ?thesis unfolding status_of_def eq by simp
qed

text \<open>
  A confirmed Booking of another channel that comes after \<open>n\<close> and exceeds the capacity
  together with \<open>n\<close> is in CONFLICT once \<open>n\<close> is confirmed.
\<close>

lemma status_loser:
  assumes "valid_booking capacity n"
    and "find_booking (bookings st) (source_channel n) (external_reservation_id n) = None"
    and "source_channel m \<noteq> source_channel n"
    and "fits capacity (yield_to n (bookings st)) n"
    and y: "find_booking (bookings st) (source_channel m) (external_reservation_id m) = Some y"
    and "booking_status y = confirmed" and "overlaps y n" and "check_in y < check_out y"
    and "capacity (room_type_id n) < units y + units n"
  shows "status_of (snd (receive_confirmation capacity st n)) m = Some CONFLICT"
proof -
  from find_booking_other [OF assms(1,2,3)] obtain P where
    room: "fits capacity (yield_to n (bookings st)) n \<longrightarrow>
         fits capacity (to_conflict P (bookings st)) n"
    and eq: "find_booking (bookings (snd (receive_confirmation capacity st n)))
          (source_channel m) (external_reservation_id m) =
        (if fits capacity (yield_to n (bookings st)) n
         then map_option (\<lambda>x. if P x then x\<lparr>booking_status := CONFLICT\<rparr> else x)
                (find_booking (bookings st) (source_channel m) (external_reservation_id m))
         else find_booking (bookings st) (source_channel m) (external_reservation_id m))"
    by (elim exE conjE) (rule that)
  from room assms(4) have fits: "fits capacity (to_conflict P (bookings st)) n" by simp
  have "P y"
  proof (rule ccontr)
    assume "\<not> P y"
    moreover from y have "y \<in> set (bookings st)" by (rule find_booking_member)
    ultimately have "y \<in> set (to_conflict P (bookings st))"
      unfolding to_conflict_def by force
    moreover from assms(1) have "check_in n < check_out n"
      by (simp add: valid_booking_def)
    ultimately have "\<not> fits capacity (to_conflict P (bookings st)) n"
      using assms(6,7,8,9) by (intro not_fits_with [of y])
    with fits show False by contradiction
  qed
  with eq assms(4) y show ?thesis by (simp add: status_of_def)
qed

text \<open>
  Two confirmations \<open>a\<close> and \<open>b\<close> of different channels that overlap and together exceed the
  capacity, \<open>a\<close> going before \<open>b\<close> in the tie-break. Whichever arrives second finds room
  under the same condition as if it had arrived first, but that \<open>b\<close> finds none beside a
  confirmed \<open>a\<close>.
\<close>

lemma second_after_first:
  assumes va: "valid_booking capacity a" and vb: "valid_booking capacity b"
    and ov: "overlaps a b"
    and over: "capacity (room_type_id a) < units a + units b"
    and ua: "find_booking (bookings st) (source_channel a) (external_reservation_id a) = None"
    and pre: "precedes a b"
  shows "fits capacity (yield_to b (bookings (snd (receive_confirmation capacity st a)))) b \<longleftrightarrow>
         \<not> fits capacity (yield_to a (bookings st)) a \<and> fits capacity (yield_to b (bookings st)) b"
proof -
  let ?s1 = "snd (receive_confirmation capacity st a)"
  let ?A = "fits capacity (yield_to a (bookings st)) a"
  let ?ac = "a\<lparr>booking_status := confirmed\<rparr>"
  from receive_confirmation_step [OF va ua] obtain P where
    eq: "bookings ?s1 =
        (if ?A then to_conflict P (bookings st) @ [?ac]
         else bookings st @ [a\<lparr>booking_status := CONFLICT\<rparr>])"
    by (elim exE conjE) (rule that)
  show ?thesis
  proof (cases ?A)
    case True
    from pre have "\<not> loses_to b ?ac"
      by (auto simp: loses_to_def dest: precedes_asym)
    with True eq have "yield_to b (bookings ?s1) = yield_to b (to_conflict P (bookings st)) @ [?ac]"
      by (simp add: yield_to_append yield_to_single)
    moreover have "\<not> fits capacity (yield_to b (to_conflict P (bookings st)) @ [?ac]) b"
    proof (rule not_fits_with [of ?ac])
      show "?ac \<in> set (yield_to b (to_conflict P (bookings st)) @ [?ac])" by simp
      show "booking_status ?ac = confirmed" by simp
      show "overlaps ?ac b" using ov by simp
      show "check_in ?ac < check_out ?ac" using va by (simp add: valid_booking_def)
      show "check_in b < check_out b" using vb by (simp add: valid_booking_def)
      show "capacity (room_type_id b) < units ?ac + units b"
        using ov over by (simp add: overlaps_def)
    qed
    ultimately show ?thesis using True by simp
  next
    case False
    with eq have "yield_to b (bookings ?s1) =
        yield_to b (bookings st) @ [a\<lparr>booking_status := CONFLICT\<rparr>]"
      by (simp add: yield_to_append yield_to_single)
    with False show ?thesis by (simp add: fits_append_idle)
  qed
qed

lemma first_after_second:
  assumes vb: "valid_booking capacity b"
    and ov: "overlaps a b"
    and ub: "find_booking (bookings st) (source_channel b) (external_reservation_id b) = None"
    and pre: "precedes a b"
  shows "fits capacity (yield_to a (bookings (snd (receive_confirmation capacity st b)))) a \<longleftrightarrow>
         fits capacity (yield_to a (bookings st)) a"
proof -
  let ?s1 = "snd (receive_confirmation capacity st b)"
  let ?B = "fits capacity (yield_to b (bookings st)) b"
  let ?bc = "b\<lparr>booking_status := confirmed\<rparr>"
  let ?bx = "b\<lparr>booking_status := CONFLICT\<rparr>"
  from receive_confirmation_step [OF vb ub] obtain P where P: "\<forall>x. P x \<longrightarrow> loses_to b x"
    and eq: "bookings ?s1 =
        (if ?B then to_conflict P (bookings st) @ [?bc] else bookings st @ [?bx])"
    by (elim exE conjE) (rule that)
  show ?thesis
  proof (cases ?B)
    case True
    from pre ov have "loses_to a ?bc"
      by (simp add: loses_to_def overlaps_sym [of b a])
    with True eq have "yield_to a (bookings ?s1) = yield_to a (to_conflict P (bookings st)) @ [?bx]"
      by (simp add: yield_to_append yield_to_single)
    then have "fits capacity (yield_to a (bookings ?s1)) a =
        fits capacity (yield_to a (to_conflict P (bookings st))) a"
      by (simp add: fits_append_idle)
    also from pre P have "\<dots> = fits capacity (yield_to a (bookings st)) a"
      by (intro fits_yield_to_conflict) blast+
    finally show ?thesis .
  next
    case False
    with eq have "yield_to a (bookings ?s1) = yield_to a (bookings st) @ [?bx]"
      by (simp add: yield_to_append yield_to_single)
    then show ?thesis by (simp add: fits_append_idle)
  qed
qed

text \<open>
  The states of the two Bookings after both confirmations, in either order of arrival: \<open>a\<close>
  is confirmed exactly when the Bookings that go before it leave it room; \<open>b\<close> is confirmed
  exactly when \<open>a\<close> is not and the Bookings that go before \<open>b\<close> leave it room.
\<close>

lemma arrive_status:
  assumes va: "valid_booking capacity a" and vb: "valid_booking capacity b"
    and ch: "source_channel a \<noteq> source_channel b"
    and ov: "overlaps a b"
    and over: "capacity (room_type_id a) < units a + units b"
    and ua: "find_booking (bookings st) (source_channel a) (external_reservation_id a) = None"
    and ub: "find_booking (bookings st) (source_channel b) (external_reservation_id b) = None"
    and pre: "precedes a b"
  shows "status_of (arrive capacity st a b) a =
           Some (if fits capacity (yield_to a (bookings st)) a then confirmed else CONFLICT)"
    and "status_of (arrive capacity st a b) b =
           Some (if \<not> fits capacity (yield_to a (bookings st)) a \<and>
                    fits capacity (yield_to b (bookings st)) b then confirmed else CONFLICT)"
    and "status_of (arrive capacity st b a) a =
           Some (if fits capacity (yield_to a (bookings st)) a then confirmed else CONFLICT)"
    and "status_of (arrive capacity st b a) b =
           Some (if \<not> fits capacity (yield_to a (bookings st)) a \<and>
                    fits capacity (yield_to b (bookings st)) b then confirmed else CONFLICT)"
proof -
  let ?A = "fits capacity (yield_to a (bookings st)) a"
  let ?B = "fits capacity (yield_to b (bookings st)) b"
  let ?sa = "snd (receive_confirmation capacity st a)"
  let ?sb = "snd (receive_confirmation capacity st b)"
  let ?Fb = "fits capacity (yield_to b (bookings ?sa)) b"
  let ?Fa = "fits capacity (yield_to a (bookings ?sb)) a"
  from ch have ch': "source_channel b \<noteq> source_channel a" by simp
  have ub1: "find_booking (bookings ?sa) (source_channel b) (external_reservation_id b) = None"
    using va ua ch' ub by (rule unknown_after)
  have ua1: "find_booking (bookings ?sb) (source_channel a) (external_reservation_id a) = None"
    using vb ub ch ua by (rule unknown_after)
  have sa1: "status_of ?sa a = Some (if ?A then confirmed else CONFLICT)"
    using va ua by (rule status_of_self)
  have sb1: "status_of ?sb b = Some (if ?B then confirmed else CONFLICT)"
    using vb ub by (rule status_of_self)
  have Fb: "?Fb \<longleftrightarrow> \<not> ?A \<and> ?B"
    using va vb ov over ua pre by (rule second_after_first)
  have Fa: "?Fa \<longleftrightarrow> ?A"
    using vb ov ub pre by (rule first_after_second)

  show "status_of (arrive capacity st a b) a = Some (if ?A then confirmed else CONFLICT)"
  proof (cases ?Fb)
    case True
    with Fb sa1 have "status_of ?sa a = Some CONFLICT" by simp
    with vb ub1 ch have "status_of (snd (receive_confirmation capacity ?sa b)) a = Some CONFLICT"
      by (rule status_conflict_kept)
    with True Fb show ?thesis by (simp add: arrive_def)
  next
    case False
    with vb ub1 ch have "status_of (snd (receive_confirmation capacity ?sa b)) a = status_of ?sa a"
      by (rule status_kept)
    with sa1 show ?thesis by (simp add: arrive_def)
  qed

  have "status_of (snd (receive_confirmation capacity ?sa b)) b =
      Some (if ?Fb then confirmed else CONFLICT)"
    using vb ub1 by (rule status_of_self)
  then show "status_of (arrive capacity st a b) b =
      Some (if \<not> ?A \<and> ?B then confirmed else CONFLICT)"
    unfolding Fb by (simp add: arrive_def)

  have "status_of (snd (receive_confirmation capacity ?sb a)) a =
      Some (if ?Fa then confirmed else CONFLICT)"
    using va ua1 by (rule status_of_self)
  then show "status_of (arrive capacity st b a) a = Some (if ?A then confirmed else CONFLICT)"
    unfolding Fa by (simp add: arrive_def)

  show "status_of (arrive capacity st b a) b =
      Some (if \<not> ?A \<and> ?B then confirmed else CONFLICT)"
  proof (cases ?A)
    case False
    with Fa have "\<not> ?Fa" by simp
    with va ua1 ch' have "status_of (snd (receive_confirmation capacity ?sb a)) b = status_of ?sb b"
      by (rule status_kept)
    with sb1 False show ?thesis by (simp add: arrive_def)
  next
    case True
    with Fa have room: ?Fa by simp
    have "status_of (snd (receive_confirmation capacity ?sb a)) b = Some CONFLICT"
    proof (cases ?B)
      case False
      with sb1 have "status_of ?sb b = Some CONFLICT" by simp
      with va ua1 ch' show ?thesis by (rule status_conflict_kept)
    next
      case True
      let ?bc = "b\<lparr>booking_status := confirmed\<rparr>"
      have y: "find_booking (bookings ?sb) (source_channel b) (external_reservation_id b) =
          Some ?bc"
        using vb ub True by (rule find_booking_self)
      show ?thesis
      proof (rule status_loser [OF va ua1 ch' room y])
        show "booking_status ?bc = confirmed" by simp
        show "overlaps ?bc a" using ov by (simp add: overlaps_sym [of b a])
        show "check_in ?bc < check_out ?bc" using vb by (simp add: valid_booking_def)
        show "capacity (room_type_id a) < units ?bc + units a" using over by simp
      qed
    qed
    with True show ?thesis by (simp add: arrive_def)
  qed
qed

text \<open>The tie-break on the Bookings of the scenarios.\<close>

lemma scenario_precedes:
  "precedes booking_A booking_B" "\<not> precedes booking_B booking_A"
  "precedes booking_C booking_A" "precedes booking_C booking_B"
  "precedes booking_A6 booking_B6" "\<not> precedes booking_B6 booking_A6"
  "precedes booking_C10 booking_A" "precedes booking_C10 booking_B"
  "precedes booking_C booking_A6" "precedes booking_C booking_B6"
  "precedes booking_C booking_B6_tie"
  by (simp_all add: precedes_def tie_key_def booking_A_def booking_B_def booking_C_def
      booking_A6_def booking_B6_def booking_C10_def booking_B6_tie_def)

lemma scenario_tie: "precedes booking_B6_tie booking_A6" "\<not> precedes booking_A6 booking_B6_tie"
  by (simp_all add: precedes_def tie_key_def booking_A_def booking_B_def
      booking_A6_def booking_B6_tie_def less_char_def)

text \<open>
  The scenario of the specification, step by step: the Ledger after one confirmation, and
  after both, in both orders of arrival. A is confirmed and B is in CONFLICT, and the Ledger
  has 8 units available on both dates.
\<close>

lemma scenario_nights: "nights booking_A = [1, 2]" "nights booking_B = [1, 2]"
  by (simp_all add: nights_def booking_A_def booking_B_def upt_conv_Cons)

lemma scenario_fields:
  "units booking_A = 2" "units booking_B = 9"
  "room_type_id booking_A = ''deluxe''" "room_type_id booking_B = ''deluxe''"
  "booking_status booking_A = confirmed" "booking_status booking_B = confirmed"
  "source_channel booking_B \<noteq> source_channel booking_A"
  "source_channel booking_A \<noteq> source_channel booking_B"
  "check_in booking_A = 1" "check_out booking_A = 3"
  "check_in booking_B = 1" "check_out booking_B = 3"
  "booking_A\<lparr>booking_status := confirmed\<rparr> = booking_A"
  "booking_B\<lparr>booking_status := confirmed\<rparr> = booking_B"
  "booking_B\<lparr>booking_status := CONFLICT\<rparr> \<noteq> booking_B"
  by (simp_all add: booking_A_def booking_B_def)

lemma scenario_valid:
  "valid_booking scenario_capacity booking_A" "valid_booking scenario_capacity booking_B"
  by (simp_all add: valid_booking_def scenario_capacity_def booking_A_def booking_B_def)

lemma scenario_overlaps: "overlaps booking_A booking_B" "overlaps booking_B booking_A"
  by (simp_all add: overlaps_def booking_A_def booking_B_def)

lemma scenario_after_A:
  "receive_confirmation scenario_capacity scenario_ledger booking_A =
     (APPLIED,
      \<lparr>inventory_days = [(''deluxe'', 1) \<mapsto> scenario_day\<lparr>available_units := 8, version := 2,
                                         last_modified_by := by_reconciliation\<rparr>,
                (''deluxe'', 2) \<mapsto> scenario_day\<lparr>available_units := 8, version := 2,
                                         last_modified_by := by_reconciliation\<rparr>],
       bookings = [booking_A]\<rparr>)"
  by (simp add: receive_confirmation_def scenario_valid fits_def booked_units_def rivals_def
      moved_def scenario_nights scenario_fields scenario_capacity_def scenario_ledger_def
      scenario_day_def ledger_apply_def stored_version_def Let_def eval_nat_numeral)

lemma scenario_after_B:
  "receive_confirmation scenario_capacity scenario_ledger booking_B =
     (APPLIED,
      \<lparr>inventory_days = [(''deluxe'', 1) \<mapsto> scenario_day\<lparr>available_units := 1, version := 2,
                                         last_modified_by := by_reconciliation\<rparr>,
                (''deluxe'', 2) \<mapsto> scenario_day\<lparr>available_units := 1, version := 2,
                                         last_modified_by := by_reconciliation\<rparr>],
       bookings = [booking_B]\<rparr>)"
  by (simp add: receive_confirmation_def scenario_valid fits_def booked_units_def rivals_def
      moved_def scenario_nights scenario_fields scenario_capacity_def scenario_ledger_def
      scenario_day_def ledger_apply_def stored_version_def Let_def eval_nat_numeral)

lemma scenario_A_then_B:
  "receive_confirmation scenario_capacity
     (snd (receive_confirmation scenario_capacity scenario_ledger booking_A)) booking_B =
     (CONFLICT_QUEUED,
      \<lparr>inventory_days = [(''deluxe'', 1) \<mapsto> scenario_day\<lparr>available_units := 8, version := 2,
                                         last_modified_by := by_reconciliation\<rparr>,
                (''deluxe'', 2) \<mapsto> scenario_day\<lparr>available_units := 8, version := 2,
                                         last_modified_by := by_reconciliation\<rparr>],
       bookings = [booking_A, booking_B\<lparr>booking_status := CONFLICT\<rparr>]\<rparr>)"
  unfolding scenario_after_A snd_conv
  by (simp add: receive_confirmation_def scenario_valid fits_def booked_units_def rivals_def
      loses_to_def scenario_precedes scenario_nights scenario_fields scenario_capacity_def)

lemma scenario_B_then_A:
  "receive_confirmation scenario_capacity
     (snd (receive_confirmation scenario_capacity scenario_ledger booking_B)) booking_A =
     (CONFLICT_QUEUED,
      \<lparr>inventory_days = [(''deluxe'', 1) \<mapsto> scenario_day\<lparr>available_units := 8, version := 4,
                                         last_modified_by := by_reconciliation\<rparr>,
                (''deluxe'', 2) \<mapsto> scenario_day\<lparr>available_units := 8, version := 4,
                                         last_modified_by := by_reconciliation\<rparr>],
       bookings = [booking_B\<lparr>booking_status := CONFLICT\<rparr>, booking_A]\<rparr>)"
  unfolding scenario_after_B snd_conv
  by (simp add: receive_confirmation_def scenario_valid fits_def booked_units_def rivals_def
      moved_def crowds_def to_conflict_def loses_to_def scenario_precedes scenario_overlaps
      scenario_nights scenario_fields scenario_capacity_def scenario_day_def
      ledger_apply_def stored_version_def Let_def eval_nat_numeral)

text \<open>
  The Ledger that holds the earlier Booking C of 3 units: the Bookings of 6 units each are
  valid and unknown, they overlap, and each alone has room beside C.
\<close>

lemma with_C_nights:
  "nights booking_A6 = [1, 2]" "nights booking_B6 = [1, 2]" "nights booking_B6_tie = [1, 2]"
  by (simp_all add: nights_def booking_A6_def booking_B6_def booking_B6_tie_def
      booking_A_def booking_B_def upt_conv_Cons)

lemma with_C_valid:
  "valid_booking scenario_capacity booking_A6" "valid_booking scenario_capacity booking_B6"
  "valid_booking scenario_capacity booking_B6_tie"
  by (simp_all add: valid_booking_def scenario_capacity_def booking_A6_def booking_B6_def
      booking_B6_tie_def booking_A_def booking_B_def)

lemma with_C_overlaps:
  "overlaps booking_A6 booking_B6" "overlaps booking_B6_tie booking_A6"
  by (simp_all add: overlaps_def booking_A6_def booking_B6_def booking_B6_tie_def
      booking_A_def booking_B_def)

lemma with_C_exceed:
  "source_channel booking_A6 \<noteq> source_channel booking_B6"
  "source_channel booking_B6_tie \<noteq> source_channel booking_A6"
  "scenario_capacity (room_type_id booking_A6) < units booking_A6 + units booking_B6"
  "scenario_capacity (room_type_id booking_B6_tie) < units booking_B6_tie + units booking_A6"
  "created_at booking_A6 < created_at booking_B6"
  "created_at booking_B6_tie = created_at booking_A6"
  by (simp_all add: scenario_capacity_def booking_A6_def booking_B6_def booking_B6_tie_def
      booking_A_def booking_B_def)

lemma with_C_unknown:
  "find_booking (bookings ledger_with_C) (source_channel booking_A6)
     (external_reservation_id booking_A6) = None"
  "find_booking (bookings ledger_with_C) (source_channel booking_B6)
     (external_reservation_id booking_B6) = None"
  "find_booking (bookings ledger_with_C) (source_channel booking_B6_tie)
     (external_reservation_id booking_B6_tie) = None"
  by (simp_all add: ledger_with_C_def booking_C_def booking_A6_def booking_B6_def
      booking_B6_tie_def booking_A_def booking_B_def)

lemma with_C_room:
  "fits scenario_capacity (yield_to booking_A6 (bookings ledger_with_C)) booking_A6"
  "fits scenario_capacity (yield_to booking_B6 (bookings ledger_with_C)) booking_B6"
  "fits scenario_capacity (yield_to booking_B6_tie (bookings ledger_with_C)) booking_B6_tie"
proof -
  have C: "\<not> loses_to booking_A6 booking_C" "\<not> loses_to booking_B6 booking_C"
      "\<not> loses_to booking_B6_tie booking_C"
    using scenario_precedes by (auto simp: loses_to_def dest: precedes_asym)
  have fields: "booking_status booking_C = confirmed" "room_type_id booking_C = ''deluxe''"
      "check_in booking_C = 1" "check_out booking_C = 3" "units booking_C = 3"
      "room_type_id booking_A6 = ''deluxe''" "units booking_A6 = 6"
      "room_type_id booking_B6 = ''deluxe''" "units booking_B6 = 6"
      "room_type_id booking_B6_tie = ''deluxe''" "units booking_B6_tie = 6"
    by (simp_all add: booking_C_def booking_A6_def booking_B6_def booking_B6_tie_def
        booking_A_def booking_B_def)
  show "fits scenario_capacity (yield_to booking_A6 (bookings ledger_with_C)) booking_A6"
    by (simp add: ledger_with_C_def yield_to_single C fits_def with_C_nights
        booked_units_single fields scenario_capacity_def)
  show "fits scenario_capacity (yield_to booking_B6 (bookings ledger_with_C)) booking_B6"
    by (simp add: ledger_with_C_def yield_to_single C fits_def with_C_nights
        booked_units_single fields scenario_capacity_def)
  show "fits scenario_capacity (yield_to booking_B6_tie (bookings ledger_with_C)) booking_B6_tie"
    by (simp add: ledger_with_C_def yield_to_single C fits_def with_C_nights
        booked_units_single fields scenario_capacity_def)
qed

text \<open>
  The same Ledger, step by step, with A and B of 6 units created one after the other: in
  both orders of arrival A is confirmed beside C, B is in CONFLICT, and 1 unit is left on
  both dates.
\<close>

lemma with_C_fields:
  "units booking_A6 = 6" "units booking_B6 = 6" "units booking_C = 3"
  "room_type_id booking_A6 = ''deluxe''" "room_type_id booking_B6 = ''deluxe''"
  "room_type_id booking_C = ''deluxe''"
  "booking_status booking_A6 = confirmed" "booking_status booking_B6 = confirmed"
  "booking_status booking_C = confirmed"
  "check_in booking_A6 = 1" "check_out booking_A6 = 3"
  "check_in booking_B6 = 1" "check_out booking_B6 = 3"
  "check_in booking_C = 1" "check_out booking_C = 3"
  "booking_A6\<lparr>booking_status := confirmed\<rparr> = booking_A6"
  "booking_B6\<lparr>booking_status := confirmed\<rparr> = booking_B6"
  "booking_B6\<lparr>booking_status := CONFLICT\<rparr> \<noteq> booking_B6"
  "booking_C \<noteq> booking_B6"
  "source_channel booking_A6 = ''booking.com''" "external_reservation_id booking_A6 = ''A''"
  "source_channel booking_B6 = ''airbnb''" "external_reservation_id booking_B6 = ''B''"
  "source_channel booking_C = ''expedia''" "external_reservation_id booking_C = ''C''"
  by (simp_all add: booking_A6_def booking_B6_def booking_C_def booking_A_def booking_B_def)

lemma with_C_rivals:
  "\<not> loses_to booking_A6 booking_C" "\<not> loses_to booking_B6 booking_C"
  "\<not> loses_to booking_B6 booking_A6" "loses_to booking_A6 booking_B6"
  using scenario_precedes with_C_overlaps(1)
  by (auto simp: loses_to_def with_C_fields overlaps_sym [of booking_B6] dest: precedes_asym)

lemma with_C_after_A:
  "receive_confirmation scenario_capacity ledger_with_C booking_A6 =
     (APPLIED,
      \<lparr>inventory_days = [(''deluxe'', 1) \<mapsto> scenario_day\<lparr>available_units := 1, version := 2,
                                         last_modified_by := by_reconciliation\<rparr>,
                (''deluxe'', 2) \<mapsto> scenario_day\<lparr>available_units := 1, version := 2,
                                         last_modified_by := by_reconciliation\<rparr>],
       bookings = [booking_C, booking_A6]\<rparr>)"
  by (simp add: receive_confirmation_def with_C_valid fits_def booked_units_def
      rivals_def moved_def with_C_rivals with_C_nights with_C_fields scenario_capacity_def
      ledger_with_C_def scenario_day_def ledger_apply_def stored_version_def Let_def
      eval_nat_numeral)

lemma with_C_after_B:
  "receive_confirmation scenario_capacity ledger_with_C booking_B6 =
     (APPLIED,
      \<lparr>inventory_days = [(''deluxe'', 1) \<mapsto> scenario_day\<lparr>available_units := 1, version := 2,
                                         last_modified_by := by_reconciliation\<rparr>,
                (''deluxe'', 2) \<mapsto> scenario_day\<lparr>available_units := 1, version := 2,
                                         last_modified_by := by_reconciliation\<rparr>],
       bookings = [booking_C, booking_B6]\<rparr>)"
  by (simp add: receive_confirmation_def with_C_valid fits_def booked_units_def
      rivals_def moved_def with_C_rivals with_C_nights with_C_fields scenario_capacity_def
      ledger_with_C_def scenario_day_def ledger_apply_def stored_version_def Let_def
      eval_nat_numeral)

lemma with_C_A_then_B:
  "receive_confirmation scenario_capacity
     (snd (receive_confirmation scenario_capacity ledger_with_C booking_A6)) booking_B6 =
     (CONFLICT_QUEUED,
      \<lparr>inventory_days = [(''deluxe'', 1) \<mapsto> scenario_day\<lparr>available_units := 1, version := 2,
                                         last_modified_by := by_reconciliation\<rparr>,
                (''deluxe'', 2) \<mapsto> scenario_day\<lparr>available_units := 1, version := 2,
                                         last_modified_by := by_reconciliation\<rparr>],
       bookings = [booking_C, booking_A6, booking_B6\<lparr>booking_status := CONFLICT\<rparr>]\<rparr>)"
  unfolding with_C_after_A snd_conv
  by (simp add: receive_confirmation_def with_C_valid fits_def booked_units_def
      rivals_def with_C_rivals with_C_nights with_C_fields scenario_capacity_def)

lemma with_C_B_then_A:
  "receive_confirmation scenario_capacity
     (snd (receive_confirmation scenario_capacity ledger_with_C booking_B6)) booking_A6 =
     (CONFLICT_QUEUED,
      \<lparr>inventory_days = [(''deluxe'', 1) \<mapsto> scenario_day\<lparr>available_units := 1, version := 4,
                                         last_modified_by := by_reconciliation\<rparr>,
                (''deluxe'', 2) \<mapsto> scenario_day\<lparr>available_units := 1, version := 4,
                                         last_modified_by := by_reconciliation\<rparr>],
       bookings = [booking_C, booking_B6\<lparr>booking_status := CONFLICT\<rparr>, booking_A6]\<rparr>)"
  unfolding with_C_after_B snd_conv
  by (simp add: receive_confirmation_def with_C_valid fits_def booked_units_def
      rivals_def moved_def crowds_def to_conflict_def with_C_rivals with_C_nights
      with_C_fields scenario_capacity_def scenario_day_def ledger_apply_def
      stored_version_def Let_def eval_nat_numeral)

text \<open>
  Equal \<open>created_at\<close>: beside C, the Bookings of 6 units from airbnb and from booking.com,
  created at the same instant. The one from airbnb goes first in the order of the dedupe
  key; it is confirmed and the other is in CONFLICT, in either order of arrival.
\<close>

lemma equal_created_at_by_key:
  "status_of (arrive scenario_capacity ledger_with_C booking_B6_tie booking_A6) booking_B6_tie =
     Some confirmed"
  "status_of (arrive scenario_capacity ledger_with_C booking_B6_tie booking_A6) booking_A6 =
     Some CONFLICT"
  "status_of (arrive scenario_capacity ledger_with_C booking_A6 booking_B6_tie) booking_B6_tie =
     Some confirmed"
  "status_of (arrive scenario_capacity ledger_with_C booking_A6 booking_B6_tie) booking_A6 =
     Some CONFLICT"
  using arrive_status [OF with_C_valid(3) with_C_valid(1) with_C_exceed(2) with_C_overlaps(2)
      with_C_exceed(4) with_C_unknown(3) with_C_unknown(1) scenario_tie(1)]
  by (simp_all add: with_C_room)







text \<open>
  Whatever the Ledger holds, the order of arrival never matters to the two Bookings, and
  they are never both confirmed.
\<close>

lemma arrival_order_irrelevant:
  assumes "valid_booking capacity a" and "valid_booking capacity b"
    and "source_channel a \<noteq> source_channel b"
    and "overlaps a b"
    and "capacity (room_type_id a) < units a + units b"
    and "find_booking (bookings st) (source_channel a) (external_reservation_id a) = None"
    and "find_booking (bookings st) (source_channel b) (external_reservation_id b) = None"
  shows "status_of (arrive capacity st a b) a = status_of (arrive capacity st b a) a"
    and "status_of (arrive capacity st a b) b = status_of (arrive capacity st b a) b"
    and "\<not> (status_of (arrive capacity st a b) a = Some confirmed \<and>
            status_of (arrive capacity st a b) b = Some confirmed)"
proof -
  from assms(3) have order: "precedes a b \<or> precedes b a" by (rule precedes_total)
  from assms(3) have ch: "source_channel b \<noteq> source_channel a" by simp
  from assms(4) have ov: "overlaps b a" by (simp add: overlaps_sym [of b a])
  from assms(4,5) have over: "capacity (room_type_id b) < units b + units a"
    by (simp add: overlaps_def add.commute)
  note ab = arrive_status [OF assms(1,2,3,4,5,6,7)]
  note ba = arrive_status [OF assms(2,1) ch ov over assms(7,6)]
  from order show "status_of (arrive capacity st a b) a = status_of (arrive capacity st b a) a"
    using ab(1,3) ba(2,4) by (elim disjE) simp_all
  from order show "status_of (arrive capacity st a b) b = status_of (arrive capacity st b a) b"
    using ab(2,4) ba(1,3) by (elim disjE) simp_all
  from order show "\<not> (status_of (arrive capacity st a b) a = Some confirmed \<and>
            status_of (arrive capacity st a b) b = Some confirmed)"
    using ab(1,2) ba(3,4) by (elim disjE) (simp_all split: if_splits)
qed




subsection \<open>The circuit of a channel\<close>

lemma failures_append:
  "failures cfg (ts @ us) c = failures cfg us (failures cfg ts c)"
  by (induction ts arbitrary: c) simp_all

lemma failures_stay_open:
  "circuit c = Open \<Longrightarrow> failures cfg ts c = c"
  by (induction ts) (simp_all add: record_outcome_def)

lemma failures_below_threshold:
  assumes "circuit c = Closed"
    and "consecutive_failure_count c + length ts < failure_threshold cfg"
  shows "circuit (failures cfg ts c) = Closed \<and>
         consecutive_failure_count (failures cfg ts c) = consecutive_failure_count c + length ts"
  using assms
proof (induction ts arbitrary: c)
  case Nil
  then show ?case by simp
next
  case (Cons t ts)
  let ?c = "record_outcome cfg t False c"
  from Cons.prems have step: "circuit ?c = Closed"
      "consecutive_failure_count ?c = consecutive_failure_count c + 1"
    by (simp_all add: record_outcome_def)
  with Cons.prems have "consecutive_failure_count ?c + length ts < failure_threshold cfg"
    by simp
  from Cons.IH [OF step(1) this] step(2) show ?case by simp
qed

lemma failures_reach_threshold:
  assumes "circuit c = Closed"
    and "consecutive_failure_count c + length ts = failure_threshold cfg"
    and "ts \<noteq> []"
  shows "circuit (failures cfg ts c) = Open \<and> opened_at (failures cfg ts c) = last ts"
proof -
  let ?c = "failures cfg (butlast ts) c"
  from assms(3) have ts: "ts = butlast ts @ [last ts]" by simp
  from assms(2,3) have "consecutive_failure_count c + length (butlast ts) < failure_threshold cfg"
    by (cases ts rule: rev_cases) auto
  from failures_below_threshold [OF assms(1) this]
  have closed: "circuit ?c = Closed" and
    count: "consecutive_failure_count ?c = consecutive_failure_count c + length (butlast ts)"
    by simp_all
  from count assms(2,3) have "failure_threshold cfg \<le> consecutive_failure_count ?c + 1"
    by (cases ts rule: rev_cases) auto
  with closed have "circuit (record_outcome cfg (last ts) False ?c) = Open \<and>
      opened_at (record_outcome cfg (last ts) False ?c) = last ts"
    by (simp add: record_outcome_def)
  moreover have "failures cfg ts c = record_outcome cfg (last ts) False ?c"
    by (subst ts) (simp add: failures_append)
  ultimately show ?thesis by simp
qed

text \<open>Once the failures reach the threshold the circuit is open, whatever the count was.\<close>

lemma failures_open_circuit:
  assumes "circuit c = Closed"
    and "failure_threshold cfg \<le> consecutive_failure_count c + length ts"
    and "ts \<noteq> []"
  shows "circuit (failures cfg ts c) = Open"
  using assms
proof (induction ts arbitrary: c)
  case Nil
  then show ?case by simp
next
  case (Cons t ts)
  let ?c = "record_outcome cfg t False c"
  show ?case
  proof (cases "failure_threshold cfg \<le> consecutive_failure_count c + 1")
    case True
    with Cons.prems(1) have "circuit ?c = Open" by (simp add: record_outcome_def)
    then show ?thesis by (simp add: failures_stay_open)
  next
    case False
    with Cons.prems(1) have step: "circuit ?c = Closed"
        "consecutive_failure_count ?c = consecutive_failure_count c + 1"
      by (simp_all add: record_outcome_def)
    from False Cons.prems(2) step(2)
    have "failure_threshold cfg \<le> consecutive_failure_count ?c + length ts" and "ts \<noteq> []"
      by auto
    from Cons.IH [OF step(1) this] show ?thesis by simp
  qed
qed

lemma cycles_half_open:
  "circuit c = Half_Open \<Longrightarrow> cycles cfg ts c = replicate (length ts) Suspended"
  by (induction ts) (simp_all add: next_dispatch_def)

text \<open>
  The cycles of an open circuit: nothing is sent at the instants before the end of the
  window; the first instant at or after it sends the probe, and nothing follows the probe.
\<close>

lemma cycles_open:
  assumes "circuit c = Open"
  shows "cycles cfg ts c =
         replicate (length (takeWhile (\<lambda>t. t < opened_at c + cool_down cfg) ts)) Suspended @
         (case dropWhile (\<lambda>t. t < opened_at c + cool_down cfg) ts of
            [] \<Rightarrow> []
          | t # rest \<Rightarrow> Send_Probe # replicate (length rest) Suspended)"
  using assms
proof (induction ts)
  case Nil
  show ?case by simp
next
  case (Cons t ts)
  show ?case
  proof (cases "t < opened_at c + cool_down cfg")
    case True
    with Cons show ?thesis by (simp add: next_dispatch_def)
  next
    case False
    have "circuit (c\<lparr>circuit := Half_Open\<rparr>) = Half_Open" by simp
    from cycles_half_open [OF this, of cfg ts] False Cons.prems
    show ?thesis by (simp add: next_dispatch_def)
  qed
qed

text \<open>
  Claim C7. With the default threshold, five consecutive failures open a closed circuit: a
  circuit that had counted none is still closed after fewer than five and opens at the
  fifth. While the circuit is open and the cool-down window has not elapsed, a cycle sends
  nothing. At the first cycle at or after the end of the window the half-open probe is
  sent, and over any further cycles nothing else is sent until an outcome comes in: the
  cycles of an open circuit send the probe once and dispatch no batch.
\<close>

theorem circuit_opens_and_probes_once:
  "(circuit c = Closed \<and> length ts = 5 \<longrightarrow>
      circuit (failures (default_config window) ts c) = Open) \<and>
   (circuit c = Closed \<and> consecutive_failure_count c = 0 \<and> length ts = 5 \<longrightarrow>
      opened_at (failures (default_config window) ts c) = last ts \<and>
      (\<forall>n < 5. circuit (failures (default_config window) (take n ts) c) = Closed)) \<and>
   (circuit c = Open \<and> now < opened_at c + cool_down cfg \<longrightarrow>
      next_dispatch cfg now c = (Suspended, c)) \<and>
   (circuit c = Open \<and> opened_at c + cool_down cfg \<le> now \<longrightarrow>
      next_dispatch cfg now c = (Send_Probe, c\<lparr>circuit := Half_Open\<rparr>)) \<and>
   (circuit c = Open \<longrightarrow>
      cycles cfg us c =
        replicate (length (takeWhile (\<lambda>t. t < opened_at c + cool_down cfg) us)) Suspended @
        (case dropWhile (\<lambda>t. t < opened_at c + cool_down cfg) us of
           [] \<Rightarrow> []
         | t # rest \<Rightarrow> Send_Probe # replicate (length rest) Suspended))"
proof -
  have open5: "circuit (failures (default_config window) ts c) = Open"
    if "circuit c = Closed" and "length ts = 5"
  proof -
    from that(2) have "ts \<noteq> []" by auto
    moreover from that(2)
    have "failure_threshold (default_config window) \<le> consecutive_failure_count c + length ts"
      by (simp add: default_config_def)
    ultimately show ?thesis using that(1) by (intro failures_open_circuit)
  qed
  have exact: "opened_at (failures (default_config window) ts c) = last ts \<and>
      (\<forall>n < 5. circuit (failures (default_config window) (take n ts) c) = Closed)"
    if "circuit c = Closed" and "consecutive_failure_count c = 0" and "length ts = 5"
  proof -
    from that(3) have "ts \<noteq> []" by auto
    moreover from that(2,3)
    have "consecutive_failure_count c + length ts = failure_threshold (default_config window)"
      by (simp add: default_config_def)
    ultimately have "opened_at (failures (default_config window) ts c) = last ts"
      using failures_reach_threshold [OF that(1)] by blast
    moreover have "circuit (failures (default_config window) (take n ts) c) = Closed"
      if "n < 5" for n
    proof -
      from that \<open>length ts = 5\<close> \<open>consecutive_failure_count c = 0\<close>
      have "consecutive_failure_count c + length (take n ts)
            < failure_threshold (default_config window)"
        by (simp add: default_config_def)
      from failures_below_threshold [OF \<open>circuit c = Closed\<close> this] show ?thesis by simp
    qed
    ultimately show ?thesis by blast
  qed
  have wait: "next_dispatch cfg now c = (Suspended, c)"
    if "circuit c = Open" and "now < opened_at c + cool_down cfg"
    using that by (simp add: next_dispatch_def)
  have probe: "next_dispatch cfg now c = (Send_Probe, c\<lparr>circuit := Half_Open\<rparr>)"
    if "circuit c = Open" and "opened_at c + cool_down cfg \<le> now"
    using that by (simp add: next_dispatch_def)
  from open5 exact wait probe cycles_open [of c cfg us] show ?thesis by blast
qed

text \<open>
  The theorem on a fresh channel with a window of 60 ticks: failures at the instants 1 to 5
  open the circuit at 5; the cycles at 10, 64, 65, 70 and 80 send nothing before 65, the
  probe at 65, and nothing after it.
\<close>

theorem circuit_opens_and_probes_once_witness:
  "circuit (failures (default_config 60) [1, 2, 3, 4, 5]
      \<lparr>last_successful_sync_at = None, consecutive_failure_count = 0, circuit = Closed,
       opened_at = 0\<rparr>) = Open \<and>
   opened_at (failures (default_config 60) [1, 2, 3, 4, 5]
      \<lparr>last_successful_sync_at = None, consecutive_failure_count = 0, circuit = Closed,
       opened_at = 0\<rparr>) = 5 \<and>
   circuit (failures (default_config 60) [1, 2, 3, 4]
      \<lparr>last_successful_sync_at = None, consecutive_failure_count = 0, circuit = Closed,
       opened_at = 0\<rparr>) = Closed \<and>
   next_dispatch (default_config 60) 64
      \<lparr>last_successful_sync_at = None, consecutive_failure_count = 5, circuit = Open,
       opened_at = 5\<rparr> =
     (Suspended, \<lparr>last_successful_sync_at = None, consecutive_failure_count = 5,
                  circuit = Open, opened_at = 5\<rparr>) \<and>
   next_dispatch (default_config 60) 65
      \<lparr>last_successful_sync_at = None, consecutive_failure_count = 5, circuit = Open,
       opened_at = 5\<rparr> =
     (Send_Probe, \<lparr>last_successful_sync_at = None, consecutive_failure_count = 5,
                   circuit = Half_Open, opened_at = 5\<rparr>) \<and>
   cycles (default_config 60) [10, 64, 65, 70, 80]
      \<lparr>last_successful_sync_at = None, consecutive_failure_count = 5, circuit = Open,
       opened_at = 5\<rparr> = [Suspended, Suspended, Send_Probe, Suspended, Suspended]"
proof -
  let ?c0 = "\<lparr>last_successful_sync_at = None, consecutive_failure_count = 0, circuit = Closed,
              opened_at = 0\<rparr>"
  let ?c5 = "\<lparr>last_successful_sync_at = None, consecutive_failure_count = 5, circuit = Open,
              opened_at = 5\<rparr>"
  note a = circuit_opens_and_probes_once
    [of ?c0 "[1, 2, 3, 4, 5]" 60 64 "default_config 60" "[10, 64, 65, 70, 80]"]
  note b = circuit_opens_and_probes_once
    [of ?c5 "[1, 2, 3, 4, 5]" 60 64 "default_config 60" "[10, 64, 65, 70, 80]"]
  note c = circuit_opens_and_probes_once
    [of ?c5 "[1, 2, 3, 4, 5]" 60 65 "default_config 60" "[10, 64, 65, 70, 80]"]
  from a have 1: "circuit (failures (default_config 60) [1, 2, 3, 4, 5] ?c0) = Open"
    by simp
  from a have 2: "opened_at (failures (default_config 60) [1, 2, 3, 4, 5] ?c0) = 5"
    by simp
  from a have "\<forall>n < 5. circuit (failures (default_config 60) (take n [1, 2, 3, 4, 5]) ?c0) = Closed"
    by simp
  then have "circuit (failures (default_config 60) (take 4 [1, 2, 3, 4, 5]) ?c0) = Closed"
    by (rule allE [where x = 4]) simp
  then have 3: "circuit (failures (default_config 60) [1, 2, 3, 4] ?c0) = Closed"
    by simp
  from b have 4: "next_dispatch (default_config 60) 64 ?c5 = (Suspended, ?c5)"
    by (simp add: default_config_def)
  from c have 5: "next_dispatch (default_config 60) 65 ?c5 =
      (Send_Probe, \<lparr>last_successful_sync_at = None, consecutive_failure_count = 5,
                    circuit = Half_Open, opened_at = 5\<rparr>)"
    by (simp add: default_config_def)
  from b have 6: "cycles (default_config 60) [10, 64, 65, 70, 80] ?c5 =
      [Suspended, Suspended, Send_Probe, Suspended, Suspended]"
    by (simp add: default_config_def)
  from 1 2 3 4 5 6 show ?thesis by (intro conjI)
qed

end
